theory Spec2Isabelle
  imports Main "HOL-Library.AList"
begin

section \<open>Values, thrown values and the environment\<close>

text \<open>
  The state of a store and every persisted value are JavaScript values. Objects are
  association lists of their own enumerable properties (read with \<open>map_of\<close>, keys distinct),
  arrays are lists. \<open>JUndefined\<close> is the value the container holds before hydration when an
  adapter is configured.
\<close>

datatype jv = JUndefined | JNull | JBool bool | JNum int | JStr string
  | JArr "jv list" | JObj "(string \<times> jv) list"

text \<open>A thrown value (the argument of \<open>throw\<close>, the reason of a rejected promise).\<close>

datatype exn = Exn string

text \<open>\<open>x == null\<close> holds of \<open>null\<close> and \<open>undefined\<close>; so does the left side of \<open>??\<close>.\<close>

definition nullish :: "jv \<Rightarrow> bool" where
  "nullish v = (v = JNull \<or> v = JUndefined)"

text \<open>Truthiness of an optional string (\<open>!storeId\<close>, \<open>event.key\<close>): absent and empty are falsy.\<close>

definition truthy_str :: "string option \<Rightarrow> bool" where
  "truthy_str k = (case k of None \<Rightarrow> False | Some x \<Rightarrow> x \<noteq> [])"

subsection \<open>types.ts\<close>

datatype kind = Entire | Slice

datatype strategy = StrategyEntire | StrategySlices

datatype AdapterEventType = EvSet | EvRemove | EvClear

datatype AdapterEvent = AdapterEvent (ev_type: AdapterEventType) (ev_key: "string option")

datatype NusmPacerConfig = PacerFalse | PacerOptions

datatype HydrationState = NotConfigured | Pending | Hydrated | Discarded | Error

text \<open>
  Of an adapter the record keeps what the engine reads: its name, its own key resolver
  if it has one, and its pacing configuration. Its methods are effects: \<open>getItem\<close> is part
  of the environment below, \<open>setItem\<close> is what a flush is handed to, and \<open>subscribe\<close>, when
  the adapter has it, is given the listener \<open>adapterListener\<close>.
\<close>

record NusmAdapter =
  name :: string
  adapter_resolveKey :: "(string \<Rightarrow> kind \<Rightarrow> string option \<Rightarrow> string) option"
  pacer :: "NusmPacerConfig option"

record PersistSlice =
  slice_key :: string
  slice_select :: "jv \<Rightarrow> exn + jv"
  slice_apply :: "jv \<Rightarrow> jv \<Rightarrow> exn + jv"

text \<open>
  A validation function returns a plain boolean or \<open>{ok, value?}\<close>; the \<open>value\<close> field is
  optional, so \<open>None\<close> is the absent field.
\<close>

datatype validateResult = VBool bool | VResult bool "jv option"

text \<open>
  \<open>discardPersisted\<close> is absent, a boolean, or a zero-argument function. The function is
  called once, at hydration time; what matters of it is the outcome of that call.
\<close>

datatype discardPersisted = DiscardUnset | DiscardStatic bool | DiscardFn "exn + bool"

record HydrateConfig =
  hydrate_validate :: "(jv \<Rightarrow> exn + validateResult) option"
  hydrate_merge :: "(jv \<Rightarrow> jv \<Rightarrow> exn + jv) option"
  hydrate_discardPersisted :: discardPersisted

text \<open>
  The arguments of \<open>createNusmStore\<close>, with the defaults of its first lines applied:
  \<open>strategy\<close> is \<open>persist?.strategy ?? "entire"\<close>, \<open>slices\<close> is \<open>persist?.slices ?? []\<close>.
  The store identifier is the explicit \<open>storeId\<close> option; the observability emitter is
  not part of the engine and is left out (a store created without \<open>devtools\<close>).
\<close>

record config =
  initialState :: jv
  adapter :: "NusmAdapter option"
  strategy :: strategy
  slices :: "PersistSlice list"
  hydrateConfig :: "HydrateConfig option"
  storeId :: "string option"

subsection \<open>What the engine calls and does not own\<close>

text \<open>
  How one call of the container's \<open>setState\<close> ends: normally, by throwing before the value
  is assigned (a caller that replaced the method, as the repository's test of the fatal
  path does), or by throwing after the assignment and the engine's own subscriber (a later
  subscriber that throws).
\<close>

datatype fault = NoFault | ThrowBeforeAssign exn | ThrowAfterAssign exn

text \<open>
  The environment of one step of the engine: what \<open>adapter.getItem\<close> returns or throws for
  a key, how \<open>setState\<close> ends for a value, \<open>Object.is\<close> on two projections (reference
  identity, which values alone do not decide), and \<open>Date.now()\<close> in milliseconds.
\<close>

record world =
  getItem :: "string \<Rightarrow> exn + jv"
  setStateFault :: "jv \<Rightarrow> fault"
  objectIs :: "jv \<Rightarrow> jv \<Rightarrow> bool"
  now :: int

datatype entry = Entry (entry_key: string) (entry_payload: jv)
  (entry_sliceKey: "string option") (entry_kind: kind)

datatype promise = Unsettled | Resolved | Rejected exn

text \<open>
  The mutable variables of one store instance: the container's value, the closure
  variables of \<open>createNusmStore\<close>, and the logs of what the engine did to its
  collaborators: \<open>errors\<close> (the calls of the error sink), \<open>reads\<close> (the keys passed to
  \<open>adapter.getItem\<close>), \<open>pacerCalls\<close> (the calls of \<open>pacer.maybeExecute\<close>) and \<open>inFlight\<close> (the
  entries handed to \<open>adapter.setItem\<close> by a flush).
\<close>

record nusm =
  state :: jv
  isReady :: bool
  suppressPersist :: bool
  byKey :: "(string \<times> HydrationState) list"
  overall :: HydrationState
  recentWrites :: "string \<rightharpoonup> int"
  queuedPayloads :: "(string \<times> entry) list"
  inFlight :: "entry list"
  pacerCalls :: nat
  pendingAdapterEvents :: "AdapterEvent list"
  ready :: promise
  errors :: "exn list"
  reads :: "string list"

section \<open>nusm.ts\<close>

text \<open>
  Modelled from the spec: the deep merge is the package \<open>@fastify/deepmerge\<close>, which is not
  under src/; \<open>nusm.ts\<close> only configures it with \<open>mergeArray: () => (_target, source) => source\<close>.
  Two mapping-like values merge key by key, recursively; in every other case (an array on
  either side, a primitive on either side) the persisted side replaces the target. The
  merged object lists the target's keys first, in the target's order.
\<close>

fun deepMerge :: "jv \<Rightarrow> jv \<Rightarrow> jv" where
  "deepMerge (JObj tfs) (JObj sfs) =
     JObj (map (\<lambda>(k, t). case map_of sfs k of None \<Rightarrow> (k, t) | Some sv \<Rightarrow> (k, deepMerge t sv)) tfs
           @ filter (\<lambda>(k, sv). map_of tfs k = None) sfs)"
| "deepMerge target source = source"

definition defaultResolveKey :: "string \<Rightarrow> kind \<Rightarrow> string option \<Rightarrow> string" where
  "defaultResolveKey sid k sliceKey =
     (if k = Entire then ''nusm:'' @ sid @ '':entire''
      else ''nusm:'' @ sid @ '':slice:'' @ (case sliceKey of None \<Rightarrow> ''undefined'' | Some x \<Rightarrow> x))"

definition shouldDiscardPersisted :: "HydrateConfig option \<Rightarrow> exn + bool" where
  "shouldDiscardPersisted h =
     (case h of None \<Rightarrow> Inr False
      | Some hc \<Rightarrow> (case hydrate_discardPersisted hc of
          DiscardFn r \<Rightarrow> r
        | DiscardStatic b \<Rightarrow> Inr b
        | DiscardUnset \<Rightarrow> Inr False))"

definition resolveValidateResult :: "validateResult \<Rightarrow> jv \<Rightarrow> bool \<times> jv" where
  "resolveValidateResult validateResult persisted =
     (case validateResult of
        VBool b \<Rightarrow> (b, persisted)
      | VResult ok v \<Rightarrow>
          (ok, case v of None \<Rightarrow> persisted
               | Some x \<Rightarrow> if nullish x then persisted else x))"

definition resolveKey :: "config \<Rightarrow> kind \<Rightarrow> string option \<Rightarrow> string" where
  "resolveKey cfg k sliceKey =
     (if \<not> truthy_str (storeId cfg) then []
      else (case adapter cfg of
              None \<Rightarrow> defaultResolveKey (the (storeId cfg)) k sliceKey
            | Some a \<Rightarrow> (case adapter_resolveKey a of
                  Some f \<Rightarrow> f (the (storeId cfg)) k sliceKey
                | None \<Rightarrow> defaultResolveKey (the (storeId cfg)) k sliceKey)))"

definition persistenceUnits :: "config \<Rightarrow> (string \<times> kind \<times> string option) list" where
  "persistenceUnits cfg =
     (case adapter cfg of None \<Rightarrow> []
      | Some a \<Rightarrow>
          if strategy cfg = StrategyEntire then [(resolveKey cfg Entire None, (Entire, None))]
          else foldl (\<lambda>m sl. AList.update (resolveKey cfg Slice (Some (slice_key sl)))
                                (Slice, Some (slice_key sl)) m) [] (slices cfg))"

definition initial_byKey :: "config \<Rightarrow> (string \<times> HydrationState) list" where
  "initial_byKey cfg =
     (case adapter cfg of None \<Rightarrow> []
      | Some a \<Rightarrow>
          if strategy cfg = StrategyEntire then [(''entire'', Pending)]
          else foldl (\<lambda>m sl. AList.update (slice_key sl) Pending m) [] (slices cfg))"

text \<open>\<open>String.prototype.toLowerCase\<close> on the ASCII letters, and \<open>String.prototype.includes\<close>.\<close>

definition toLowerChar :: "char \<Rightarrow> char" where
  "toLowerChar c =
     (let n = (of_char c :: nat) in if 65 \<le> n \<and> n \<le> 90 then char_of (n + 32) else c)"

definition toLowerCase :: "string \<Rightarrow> string" where
  "toLowerCase s = map toLowerChar s"

fun includes_str :: "string \<Rightarrow> string \<Rightarrow> bool" where
  "includes_str [] sub = (sub = [])"
| "includes_str (c # cs) sub = (take (length sub) (c # cs) = sub \<or> includes_str cs sub)"

definition recentWriteWindowMs :: "config \<Rightarrow> int" where
  "recentWriteWindowMs cfg =
     (case adapter cfg of None \<Rightarrow> 500
      | Some a \<Rightarrow> if includes_str (toLowerCase (name a)) ''index'' then 1000 else 500)"

text \<open>
  The synchronous part of \<open>createNusmStore\<close>: the configuration error, the container and
  the initial values of the closure variables.
\<close>

definition createNusmStore :: "config \<Rightarrow> exn + nusm" where
  "createNusmStore cfg =
     (if adapter cfg \<noteq> None \<and> \<not> truthy_str (storeId cfg)
      then Inl (Exn ''nusm requires a stable storeId or devtools name when persistence is enabled.'')
      else Inr \<lparr> state = (if adapter cfg \<noteq> None then JUndefined else initialState cfg),
                 isReady = False,
                 suppressPersist = False,
                 byKey = initial_byKey cfg,
                 overall = (if adapter cfg \<noteq> None then Pending else NotConfigured),
                 recentWrites = Map.empty,
                 queuedPayloads = [],
                 inFlight = [],
                 pacerCalls = 0,
                 pendingAdapterEvents = [],
                 ready = Unsettled,
                 errors = [],
                 reads = [] \<rparr>)"

subsection \<open>The persistence scheduler\<close>

text \<open>
  \<open>flushQueue\<close> up to its first suspension: the queue is copied and cleared and every entry
  is handed to \<open>adapter.setItem\<close>. \<open>settleWrite\<close> is what follows one such call: the ledger
  entry on success, the error sink on failure.
\<close>

definition flushQueue :: "config \<Rightarrow> nusm \<Rightarrow> nusm" where
  "flushQueue cfg s =
     (if adapter cfg = None \<or> queuedPayloads s = [] then s
      else s\<lparr>inFlight := inFlight s @ map snd (queuedPayloads s), queuedPayloads := []\<rparr>)"

definition settleWrite :: "world \<Rightarrow> entry \<Rightarrow> exn option \<Rightarrow> nusm \<Rightarrow> nusm" where
  "settleWrite w e outcome s =
     (case outcome of
        None \<Rightarrow> s\<lparr>recentWrites := (recentWrites s)(entry_key e \<mapsto> now w)\<rparr>
      | Some err \<Rightarrow> s\<lparr>errors := errors s @ [err]\<rparr>)"

definition scheduleFlush :: "config \<Rightarrow> nusm \<Rightarrow> nusm" where
  "scheduleFlush cfg s =
     (case adapter cfg of None \<Rightarrow> s
      | Some a \<Rightarrow>
          if pacer a = Some PacerFalse then flushQueue cfg s
          else s\<lparr>pacerCalls := Suc (pacerCalls s)\<rparr>)"

definition enqueuePersist :: "config \<Rightarrow> entry \<Rightarrow> nusm \<Rightarrow> nusm" where
  "enqueuePersist cfg e s =
     scheduleFlush cfg (s\<lparr>queuedPayloads := AList.update (entry_key e) e (queuedPayloads s)\<rparr>)"

text \<open>The loop of the subscriber over the slices; a selector that throws ends it.\<close>

fun subscriber_slices ::
  "config \<Rightarrow> world \<Rightarrow> PersistSlice list \<Rightarrow> jv \<Rightarrow> jv \<Rightarrow> nusm \<Rightarrow> exn option \<times> nusm" where
  "subscriber_slices cfg w [] prevVal currentVal s = (None, s)"
| "subscriber_slices cfg w (sl # rest) prevVal currentVal s =
     (case slice_select sl prevVal of
        Inl e \<Rightarrow> (Some e, s)
      | Inr prevSlice \<Rightarrow>
          (case slice_select sl currentVal of
             Inl e \<Rightarrow> (Some e, s)
           | Inr nextSlice \<Rightarrow>
               if objectIs w prevSlice nextSlice
               then subscriber_slices cfg w rest prevVal currentVal s
               else subscriber_slices cfg w rest prevVal currentVal
                      (enqueuePersist cfg
                         (Entry (resolveKey cfg Slice (Some (slice_key sl))) nextSlice
                                (Some (slice_key sl)) Slice) s)))"

text \<open>The callback that \<open>subscribeToStore\<close> registers.\<close>

definition subscriber :: "config \<Rightarrow> world \<Rightarrow> jv \<Rightarrow> jv \<Rightarrow> nusm \<Rightarrow> exn option \<times> nusm" where
  "subscriber cfg w prevVal currentVal s =
     (if adapter cfg = None \<or> suppressPersist s then (None, s)
      else if strategy cfg = StrategyEntire
      then (None, enqueuePersist cfg (Entry (resolveKey cfg Entire None) currentVal None Entire) s)
      else subscriber_slices cfg w (slices cfg) prevVal currentVal s)"

text \<open>
  Modelled from the spec: the reactive container is the package \<open>@tanstack/store\<close>, which is
  not under src/. Its \<open>setState\<close> assigns the value and then notifies the subscribers in the
  order they subscribed; the engine's subscriber is the first one. The result is the
  thrown value, if the call throws.
\<close>

definition setState :: "config \<Rightarrow> world \<Rightarrow> jv \<Rightarrow> nusm \<Rightarrow> exn option \<times> nusm" where
  "setState cfg w v s =
     (case setStateFault w v of
        ThrowBeforeAssign e \<Rightarrow> (Some e, s)
      | f \<Rightarrow>
          (case subscriber cfg w (state s) v (s\<lparr>state := v\<rparr>) of
             (Some e, s') \<Rightarrow> (Some e, s')
           | (None, s') \<Rightarrow>
               (case f of ThrowAfterAssign e \<Rightarrow> (Some e, s') | _ \<Rightarrow> (None, s'))))"

definition applyState :: "config \<Rightarrow> world \<Rightarrow> jv \<Rightarrow> nusm \<Rightarrow> exn option \<times> nusm" where
  "applyState cfg w nextState s =
     (case setState cfg w nextState (s\<lparr>suppressPersist := True\<rparr>) of
        (Some e, s') \<Rightarrow> (Some e, s')
      | (None, s') \<Rightarrow> (None, s'\<lparr>suppressPersist := False\<rparr>))"

subsection \<open>The hydration engine\<close>

text \<open>
  The validation block, which \<open>hydrateEntire\<close> and \<open>hydrateSlices\<close> both contain: \<open>Inr None\<close>
  is a rejection, \<open>Inr (Some v)\<close> the value used downstream.
\<close>

definition validatePersisted :: "config \<Rightarrow> jv \<Rightarrow> exn + jv option" where
  "validatePersisted cfg raw =
     (case hydrateConfig cfg of None \<Rightarrow> Inr (Some raw)
      | Some hc \<Rightarrow>
          (case hydrate_validate hc of None \<Rightarrow> Inr (Some raw)
           | Some validate \<Rightarrow>
               (case validate raw of
                  Inl e \<Rightarrow> Inl e
                | Inr r \<Rightarrow>
                    if \<not> fst (resolveValidateResult r raw) then Inr None
                    else Inr (Some (snd (resolveValidateResult r raw))))))"

text \<open>
  The \<open>try\<close> block of \<open>hydrateEntire\<close>: the status it sets and the state it returns, or the
  exception that reaches the \<open>catch\<close>.
\<close>

definition hydrateEntire_try :: "config \<Rightarrow> world \<Rightarrow> string \<Rightarrow> exn + (HydrationState \<times> jv)" where
  "hydrateEntire_try cfg w k =
     (case getItem w k of
        Inl e \<Rightarrow> Inl e
      | Inr raw \<Rightarrow>
          if nullish raw then Inr (Hydrated, initialState cfg)
          else (case validatePersisted cfg raw of
                  Inl e \<Rightarrow> Inl e
                | Inr None \<Rightarrow> Inr (Discarded, initialState cfg)
                | Inr (Some persistedValue) \<Rightarrow>
                    (case (case hydrateConfig cfg of None \<Rightarrow> None | Some hc \<Rightarrow> hydrate_merge hc) of
                       Some merge \<Rightarrow>
                         (case merge (initialState cfg) persistedValue of
                            Inl e \<Rightarrow> Inl e
                          | Inr merged \<Rightarrow> Inr (Hydrated, merged))
                     | None \<Rightarrow> Inr (Hydrated, deepMerge (initialState cfg) persistedValue))))"

definition hydrateEntire :: "config \<Rightarrow> world \<Rightarrow> nusm \<Rightarrow> (exn + jv) \<times> nusm" where
  "hydrateEntire cfg w s =
     (case adapter cfg of
        None \<Rightarrow> (Inr (initialState cfg), s)
      | Some a \<Rightarrow>
          (case shouldDiscardPersisted (hydrateConfig cfg) of
             Inl e \<Rightarrow> (Inl e, s)
           | Inr True \<Rightarrow>
               (Inr (initialState cfg), s\<lparr>byKey := AList.update ''entire'' Discarded (byKey s)\<rparr>)
           | Inr False \<Rightarrow>
               (case hydrateEntire_try cfg w (resolveKey cfg Entire None) of
                  Inr (st, v) \<Rightarrow>
                    (Inr v, s\<lparr>byKey := AList.update ''entire'' st (byKey s),
                              reads := reads s @ [resolveKey cfg Entire None]\<rparr>)
                | Inl e \<Rightarrow>
                    (Inr (initialState cfg),
                     s\<lparr>byKey := AList.update ''entire'' Error (byKey s),
                       errors := errors s @ [e],
                       reads := reads s @ [resolveKey cfg Entire None]\<rparr>))))"

text \<open>The \<open>try\<close> block of the loop of \<open>hydrateSlices\<close>, for one slice and the running state.\<close>

definition hydrateSlice_try ::
  "config \<Rightarrow> world \<Rightarrow> PersistSlice \<Rightarrow> jv \<Rightarrow> exn + (HydrationState \<times> jv)" where
  "hydrateSlice_try cfg w sl nextState =
     (case (case adapter cfg of None \<Rightarrow> Inr JUndefined
            | Some a \<Rightarrow> getItem w (resolveKey cfg Slice (Some (slice_key sl)))) of
        Inl e \<Rightarrow> Inl e
      | Inr raw \<Rightarrow>
          if nullish raw then Inr (Hydrated, nextState)
          else (case validatePersisted cfg raw of
                  Inl e \<Rightarrow> Inl e
                | Inr None \<Rightarrow> Inr (Discarded, nextState)
                | Inr (Some persistedValue) \<Rightarrow>
                    (case slice_apply sl nextState persistedValue of
                       Inl e \<Rightarrow> Inl e
                     | Inr next \<Rightarrow> Inr (Hydrated, next))))"

definition log_read :: "config \<Rightarrow> string \<Rightarrow> nusm \<Rightarrow> nusm" where
  "log_read cfg k s = (if adapter cfg = None then s else s\<lparr>reads := reads s @ [k]\<rparr>)"

fun hydrateSlices_loop ::
  "config \<Rightarrow> world \<Rightarrow> PersistSlice list \<Rightarrow> jv \<Rightarrow> nusm \<Rightarrow> jv \<times> nusm" where
  "hydrateSlices_loop cfg w [] nextState s = (nextState, s)"
| "hydrateSlices_loop cfg w (sl # rest) nextState s =
     (case hydrateSlice_try cfg w sl nextState of
        Inr (st, next) \<Rightarrow>
          hydrateSlices_loop cfg w rest next
            (log_read cfg (resolveKey cfg Slice (Some (slice_key sl)))
               (s\<lparr>byKey := AList.update (slice_key sl) st (byKey s)\<rparr>))
      | Inl e \<Rightarrow>
          hydrateSlices_loop cfg w rest nextState
            (log_read cfg (resolveKey cfg Slice (Some (slice_key sl)))
               (s\<lparr>byKey := AList.update (slice_key sl) Error (byKey s),
                  errors := errors s @ [e]\<rparr>)))"

definition hydrateSlices :: "config \<Rightarrow> world \<Rightarrow> nusm \<Rightarrow> (exn + jv) \<times> nusm" where
  "hydrateSlices cfg w s =
     (case shouldDiscardPersisted (hydrateConfig cfg) of
        Inl e \<Rightarrow> (Inl e, s)
      | Inr True \<Rightarrow>
          (Inr (initialState cfg),
           s\<lparr>byKey := foldl (\<lambda>m sl. AList.update (slice_key sl) Discarded m) (byKey s) (slices cfg)\<rparr>)
      | Inr False \<Rightarrow>
          (case hydrateSlices_loop cfg w (slices cfg) (initialState cfg) s of
             (nextState, s') \<Rightarrow> (Inr nextState, s')))"

definition finalizeHydration :: "config \<Rightarrow> nusm \<Rightarrow> nusm" where
  "finalizeHydration cfg s =
     (if Error \<in> set (map snd (byKey s)) then s\<lparr>overall := Error\<rparr>
      else if Discarded \<in> set (map snd (byKey s)) then s\<lparr>overall := Discarded\<rparr>
      else s\<lparr>overall := (if adapter cfg \<noteq> None then Hydrated else NotConfigured)\<rparr>)"

text \<open>A promise settles once: \<open>resolve\<close> and \<open>reject\<close> on a settled promise do nothing.\<close>

definition settle :: "promise \<Rightarrow> promise \<Rightarrow> promise" where
  "settle p outcome = (if p = Unsettled then outcome else p)"

text \<open>The \<open>catch\<close> block of \<open>hydrate\<close>.\<close>

definition hydrate_catch :: "exn \<Rightarrow> nusm \<Rightarrow> nusm" where
  "hydrate_catch e s =
     s\<lparr>overall := Error, errors := errors s @ [e], ready := settle (ready s) (Rejected e)\<rparr>"

definition hydrate :: "config \<Rightarrow> world \<Rightarrow> nusm \<Rightarrow> nusm" where
  "hydrate cfg w s =
     (case adapter cfg of
        None \<Rightarrow> s\<lparr>isReady := True, ready := settle (ready s) Resolved\<rparr>
      | Some a \<Rightarrow>
          (case (if strategy cfg = StrategyEntire then hydrateEntire cfg w s
                 else hydrateSlices cfg w s) of
             (Inl e, s1) \<Rightarrow> hydrate_catch e s1
           | (Inr hydratedState, s1) \<Rightarrow>
               (case applyState cfg w hydratedState s1 of
                  (Some e, s2) \<Rightarrow> hydrate_catch e s2
                | (None, s2) \<Rightarrow>
                    (finalizeHydration cfg s2)
                      \<lparr>isReady := True,
                       ready := settle (ready (finalizeHydration cfg s2)) Resolved\<rparr>)))"

subsection \<open>The external event reconciler\<close>

definition applyExternalState :: "config \<Rightarrow> world \<Rightarrow> jv \<Rightarrow> nusm \<Rightarrow> exn option \<times> nusm" where
  "applyExternalState cfg w nextState s =
     (case setState cfg w nextState (s\<lparr>suppressPersist := True\<rparr>) of
        (Some e, s') \<Rightarrow> (Some e, s')
      | (None, s') \<Rightarrow> (None, s'\<lparr>suppressPersist := False\<rparr>))"

text \<open>The loop of the \<open>clear\<close> branch: \<open>nextState = slice.apply(nextState, slice.select(initialState))\<close>.\<close>

fun clear_slices :: "config \<Rightarrow> PersistSlice list \<Rightarrow> jv \<Rightarrow> exn + jv" where
  "clear_slices cfg [] nextState = Inr nextState"
| "clear_slices cfg (sl # rest) nextState =
     (case slice_select sl (initialState cfg) of
        Inl e \<Rightarrow> Inl e
      | Inr v \<Rightarrow>
          (case slice_apply sl nextState v of
             Inl e \<Rightarrow> Inl e
           | Inr next \<Rightarrow> clear_slices cfg rest next))"

text \<open>The test \<open>lastWrite && Date.now() - lastWrite < recentWriteWindowMs\<close>.\<close>

definition recentlyWritten :: "config \<Rightarrow> world \<Rightarrow> nusm \<Rightarrow> string \<Rightarrow> bool" where
  "recentlyWritten cfg w s k =
     (case recentWrites s k of
        None \<Rightarrow> False
      | Some lastWrite \<Rightarrow> lastWrite \<noteq> 0 \<and> now w - lastWrite < recentWriteWindowMs cfg)"

text \<open>
  \<open>handleAdapterEvent\<close>, from the event to the settlement of its promise: the result is the
  reason of the rejection, if any. \<open>reconcile\<close> is its body from \<open>if (event.type === "clear")\<close>
  on, which is what runs once the adapter is known and the event is no echo.
\<close>

definition reconcile ::
  "config \<Rightarrow> world \<Rightarrow> AdapterEvent \<Rightarrow> nusm \<Rightarrow> exn option \<times> nusm" where
  "reconcile cfg w event s =
         (if ev_type event = EvClear then
            (if strategy cfg = StrategyEntire then applyExternalState cfg w (initialState cfg) s
             else (case clear_slices cfg (slices cfg) (initialState cfg) of
                     Inl e \<Rightarrow> (Some e, s)
                   | Inr nextState \<Rightarrow> applyExternalState cfg w nextState s))
          else if \<not> truthy_str (ev_key event) then (None, s)
          else
            (case map_of (persistenceUnits cfg) (the (ev_key event)) of
               None \<Rightarrow> (None, s)
             | Some (unit_kind, unit_sliceKey) \<Rightarrow>
                 if ev_type event = EvRemove then
                   (if unit_kind = Entire then applyExternalState cfg w (initialState cfg) s
                    else (case find (\<lambda>candidate. Some (slice_key candidate) = unit_sliceKey)
                                 (slices cfg) of
                            None \<Rightarrow> (None, s)
                          | Some sl \<Rightarrow>
                              (case slice_select sl (initialState cfg) of
                                 Inl e \<Rightarrow> (Some e, s)
                               | Inr resetValue \<Rightarrow>
                                   (case slice_apply sl (state s) resetValue of
                                      Inl e \<Rightarrow> (Some e, s)
                                    | Inr next \<Rightarrow> applyExternalState cfg w next s))))
                 else if unit_kind = Entire then
                   (case getItem w (the (ev_key event)) of
                      Inl e \<Rightarrow> (Some e, s\<lparr>reads := reads s @ [the (ev_key event)]\<rparr>)
                    | Inr raw \<Rightarrow>
                        if nullish raw then (None, s\<lparr>reads := reads s @ [the (ev_key event)]\<rparr>)
                        else
                          (case (case (case hydrateConfig cfg of None \<Rightarrow> None
                                       | Some hc \<Rightarrow> hydrate_merge hc) of
                                   Some merge \<Rightarrow> merge (initialState cfg) raw
                                 | None \<Rightarrow> Inr (deepMerge (initialState cfg) raw)) of
                             Inl e \<Rightarrow> (Some e, s\<lparr>reads := reads s @ [the (ev_key event)]\<rparr>)
                           | Inr merged \<Rightarrow>
                               applyExternalState cfg w merged
                                 (s\<lparr>reads := reads s @ [the (ev_key event)]\<rparr>)))
                 else
                   (case find (\<lambda>candidate. Some (slice_key candidate) = unit_sliceKey)
                           (slices cfg) of
                      None \<Rightarrow> (None, s)
                    | Some sl \<Rightarrow>
                        (case getItem w (the (ev_key event)) of
                           Inl e \<Rightarrow> (Some e, s\<lparr>reads := reads s @ [the (ev_key event)]\<rparr>)
                         | Inr raw \<Rightarrow>
                             if nullish raw
                             then (None, s\<lparr>reads := reads s @ [the (ev_key event)]\<rparr>)
                             else
                               (case slice_apply sl (state s) raw of
                                  Inl e \<Rightarrow> (Some e, s\<lparr>reads := reads s @ [the (ev_key event)]\<rparr>)
                                | Inr next \<Rightarrow>
                                    applyExternalState cfg w next
                                      (s\<lparr>reads := reads s @ [the (ev_key event)]\<rparr>))))))"

definition handleAdapterEvent ::
  "config \<Rightarrow> world \<Rightarrow> AdapterEvent \<Rightarrow> nusm \<Rightarrow> exn option \<times> nusm" where
  "handleAdapterEvent cfg w event s =
     (case adapter cfg of
        None \<Rightarrow> (None, s)
      | Some a \<Rightarrow>
          if ev_type event \<noteq> EvClear \<and> truthy_str (ev_key event)
             \<and> recentlyWritten cfg w s (the (ev_key event))
          then (None, s)
          else reconcile cfg w event s)"

text \<open>
  The listener given to \<open>adapter.subscribe\<close>: before readiness the event is buffered. The
  promise of \<open>handleAdapterEvent\<close> is dropped (\<open>void\<close>), so only the state remains.
\<close>

definition adapterListener :: "config \<Rightarrow> world \<Rightarrow> AdapterEvent \<Rightarrow> nusm \<Rightarrow> nusm" where
  "adapterListener cfg w event s =
     (if \<not> isReady s then s\<lparr>pendingAdapterEvents := pendingAdapterEvents s @ [event]\<rparr>
      else snd (handleAdapterEvent cfg w event s))"

text \<open>
  The callback of \<open>hydrate().then\<close>: the buffer is emptied by \<open>splice(0)\<close> and its events are
  handled in order, each awaited; an event whose handling rejects ends the loop.
\<close>

fun replay_loop :: "config \<Rightarrow> world \<Rightarrow> AdapterEvent list \<Rightarrow> nusm \<Rightarrow> exn option \<times> nusm" where
  "replay_loop cfg w [] s = (None, s)"
| "replay_loop cfg w (event # rest) s =
     (case handleAdapterEvent cfg w event s of
        (Some e, s') \<Rightarrow> (Some e, s')
      | (None, s') \<Rightarrow> replay_loop cfg w rest s')"

definition replay :: "config \<Rightarrow> world \<Rightarrow> nusm \<Rightarrow> exn option \<times> nusm" where
  "replay cfg w s =
     (if length (pendingAdapterEvents s) > 0
      then replay_loop cfg w (pendingAdapterEvents s) (s\<lparr>pendingAdapterEvents := []\<rparr>)
      else (None, s))"

text \<open>
  What follows the construction: \<open>void hydrate().then(...)\<close>. The promise of \<open>hydrate\<close> is
  fulfilled on every path, since its body catches what it throws, so the callback runs
  after it.
\<close>

definition hydrate_then_replay :: "config \<Rightarrow> world \<Rightarrow> world \<Rightarrow> nusm \<Rightarrow> nusm" where
  "hydrate_then_replay cfg w w' s = snd (replay cfg w' (hydrate cfg w s))"

text \<open>The adapter's notifications delivered to the listener, one after the other.\<close>

fun deliver :: "config \<Rightarrow> (world \<times> AdapterEvent) list \<Rightarrow> nusm \<Rightarrow> nusm" where
  "deliver cfg [] s = s"
| "deliver cfg ((w, event) # rest) s = deliver cfg rest (adapterListener cfg w event s)"

section \<open>Concrete stores and observations\<close>

text \<open>
  The adapter of the repository's tests (named \<open>memory\<close>, default key scheme, default
  pacing), and an environment in which no assignment throws.
\<close>

definition memoryAdapter :: NusmAdapter where
  "memoryAdapter = \<lparr>name = ''memory'', adapter_resolveKey = None, pacer = None\<rparr>"

definition quiet :: "(string \<Rightarrow> exn + jv) \<Rightarrow> world" where
  "quiet g = \<lparr>getItem = g, setStateFault = (\<lambda>v. NoFault), objectIs = (\<lambda>a b. a = b), now = 5000\<rparr>"

text \<open>The store and the backend of the deep-merge example.\<close>

definition merge_cfg :: config where
  "merge_cfg = \<lparr>initialState = JObj [(''a'', JNum 1), (''arr'', JArr [JNum 1, JNum 2]),
                    (''b'', JObj [(''c'', JNum 2), (''d'', JNum 3)])],
     adapter = Some memoryAdapter, strategy = StrategyEntire, slices = [],
     hydrateConfig = None, storeId = Some ''merge''\<rparr>"

definition merge_backend :: "string \<Rightarrow> exn + jv" where
  "merge_backend k = (if k = ''nusm:merge:entire''
     then Inr (JObj [(''arr'', JArr [JNum 9]), (''b'', JObj [(''c'', JNum 20)])]) else Inr JNull)"

text \<open>
  A store whose validation function transforms one persisted value and answers
  \<open>{ok: true, value: null}\<close> to every other.
\<close>

definition validating_cfg :: config where
  "validating_cfg = \<lparr>initialState = JObj [(''value'', JNum 0)],
     adapter = Some memoryAdapter, strategy = StrategyEntire, slices = [],
     hydrateConfig = Some \<lparr>hydrate_validate = Some (\<lambda>persisted.
          if persisted = JObj [(''value'', JNum (- 1))]
          then Inr (VResult True (Some (JObj [(''value'', JNum 5)])))
          else Inr (VResult True (Some JNull))),
        hydrate_merge = None, hydrate_discardPersisted = DiscardUnset\<rparr>,
     storeId = Some ''validate''\<rparr>"

definition validating_backend :: "jv \<Rightarrow> string \<Rightarrow> exn + jv" where
  "validating_backend v k = (if k = ''nusm:validate:entire'' then Inr v else Inr JNull)"

text \<open>
  The slice of one property: \<open>select: (state) => state.k\<close>, which throws on a state that is
  not an object, and \<open>apply: (state, v) => ({...state, k: v})\<close>.
\<close>

definition get_field :: "string \<Rightarrow> jv \<Rightarrow> exn + jv" where
  "get_field k st = (case st of
      JObj fs \<Rightarrow> Inr (case map_of fs k of None \<Rightarrow> JUndefined | Some v \<Rightarrow> v)
    | _ \<Rightarrow> Inl (Exn ''TypeError''))"

definition set_field :: "string \<Rightarrow> jv \<Rightarrow> jv \<Rightarrow> exn + jv" where
  "set_field k st v = (case st of
      JObj fs \<Rightarrow> Inr (JObj (AList.update k v fs))
    | _ \<Rightarrow> Inr (JObj [(k, v)]))"

definition field_slice :: "string \<Rightarrow> PersistSlice" where
  "field_slice k = \<lparr>slice_key = k, slice_select = get_field k, slice_apply = set_field k\<rparr>"

text \<open>A store with one slice and a property that no slice covers, after some use.\<close>

definition todos_cfg :: config where
  "todos_cfg = \<lparr>initialState = JObj [(''filter'', JStr ''all''), (''todos'', JArr [])],
     adapter = Some memoryAdapter, strategy = StrategySlices, slices = [field_slice ''todos''],
     hydrateConfig = None, storeId = Some ''todos''\<rparr>"

definition todos_live :: nusm where
  "todos_live = (projr (createNusmStore todos_cfg))
     \<lparr>state := JObj [(''filter'', JStr ''done''), (''todos'', JArr [JNum 1])],
      isReady := True, overall := Hydrated, ready := Resolved\<rparr>"

text \<open>The deep-merge store after some use, and after a flush that succeeded at time 5000.\<close>

definition merge_live :: nusm where
  "merge_live = (projr (createNusmStore merge_cfg))
     \<lparr>state := JObj [(''a'', JNum 42)], isReady := True, overall := Hydrated, ready := Resolved\<rparr>"

definition flushed_live :: nusm where
  "flushed_live = settleWrite (quiet merge_backend)
     (Entry ''nusm:merge:entire'' (JObj [(''a'', JNum 42)]) None Entire) None merge_live"

text \<open>A result of \<open>handleAdapterEvent\<close> with the ledger of its state replaced.\<close>

definition with_ledger :: "(string \<rightharpoonup> int) \<Rightarrow> exn option \<times> nusm \<Rightarrow> exn option \<times> nusm" where
  "with_ledger L p = (fst p, (snd p)\<lparr>recentWrites := L\<rparr>)"

text \<open>
  What the persistence scheduler has been asked to do: the pending write queue, the
  entries handed to the backend by a flush, and the number of debounced triggers.
\<close>

definition scheduled :: "nusm \<Rightarrow> (string \<times> entry) list \<times> entry list \<times> nat" where
  "scheduled s = (queuedPayloads s, inFlight s, pacerCalls s)"

text \<open>What reading, validating and merging the units leaves alone.\<close>

definition untouched :: "nusm \<Rightarrow> jv \<times> bool \<times> AdapterEvent list \<times> promise" where
  "untouched s = (state s, isReady s, pendingAdapterEvents s, ready s)"

text \<open>A store without an adapter.\<close>

definition plain_cfg :: config where
  "plain_cfg = \<lparr>initialState = JObj [(''count'', JNum 0)], adapter = None,
     strategy = StrategyEntire, slices = [], hydrateConfig = None, storeId = None\<rparr>"

text \<open>
  The store of the repository's test of the fatal path: assigning the hydrated state
  throws. Here a \<open>clear\<close> event has arrived before hydration.
\<close>

definition reject_cfg :: config where
  "reject_cfg = \<lparr>initialState = JObj [(''value'', JNum 1)], adapter = Some memoryAdapter,
     strategy = StrategyEntire, slices = [], hydrateConfig = None,
     storeId = Some ''hydrate-reject''\<rparr>"

definition reject_world :: world where
  "reject_world = \<lparr>getItem = (\<lambda>k. if k = ''nusm:hydrate-reject:entire''
                                   then Inr (JObj [(''value'', JNum 2)]) else Inr JNull),
     setStateFault = (\<lambda>v. if v = JObj [(''value'', JNum 2)]
                          then ThrowBeforeAssign (Exn ''applyState failed'') else NoFault),
     objectIs = (\<lambda>a b. a = b), now = 5000\<rparr>"

definition reject_buffered :: nusm where
  "reject_buffered = deliver reject_cfg [(reject_world, AdapterEvent EvClear None)]
     (projr (createNusmStore reject_cfg))"

text \<open>A store whose discard predicate throws.\<close>

definition discard_cfg :: config where
  "discard_cfg = \<lparr>initialState = JObj [(''value'', JNum 1)], adapter = Some memoryAdapter,
     strategy = StrategyEntire, slices = [],
     hydrateConfig = Some \<lparr>hydrate_validate = None, hydrate_merge = None,
        hydrate_discardPersisted = DiscardFn (Inl (Exn ''discard failed''))\<rparr>,
     storeId = Some ''discard''\<rparr>"

text \<open>The same store, a \<open>clear\<close> event having arrived before hydration.\<close>

definition discard_buffered :: nusm where
  "discard_buffered = deliver discard_cfg [(quiet (\<lambda>k. Inr JNull), AdapterEvent EvClear None)]
     (projr (createNusmStore discard_cfg))"

text \<open>A store with two slices, on a backend that fails to read the first.\<close>

definition two_cfg :: config where
  "two_cfg = \<lparr>initialState = JObj [(''filter'', JStr ''all''), (''todos'', JArr [])],
     adapter = Some memoryAdapter, strategy = StrategySlices,
     slices = [field_slice ''todos'', field_slice ''filter''],
     hydrateConfig = None, storeId = Some ''two''\<rparr>"

definition two_backend :: "string \<Rightarrow> exn + jv" where
  "two_backend k =
     (if k = ''nusm:two:slice:todos'' then Inl (Exn ''getItem failed'')
      else if k = ''nusm:two:slice:filter'' then Inr (JStr ''done'')
      else Inr JNull)"

section \<open>Auxiliary facts\<close>

lemma subscriber_suppressed:
  "suppressPersist s \<Longrightarrow> subscriber cfg w prevVal currentVal s = (None, s)"
  by (simp add: subscriber_def)

lemma setState_suppressed:
  "suppressPersist s \<Longrightarrow>
   setState cfg w v s =
     (case setStateFault w v of
        NoFault \<Rightarrow> (None, s\<lparr>state := v\<rparr>)
      | ThrowBeforeAssign e \<Rightarrow> (Some e, s)
      | ThrowAfterAssign e \<Rightarrow> (Some e, s\<lparr>state := v\<rparr>))"
  by (simp add: setState_def subscriber_def split: fault.splits)

lemma applyState_cases:
  "applyState cfg w v s =
     (case setStateFault w v of
        NoFault \<Rightarrow> (None, s\<lparr>state := v, suppressPersist := False\<rparr>)
      | ThrowBeforeAssign e \<Rightarrow> (Some e, s\<lparr>suppressPersist := True\<rparr>)
      | ThrowAfterAssign e \<Rightarrow> (Some e, s\<lparr>state := v, suppressPersist := True\<rparr>))"
  by (simp add: applyState_def setState_suppressed split: fault.splits)

lemma applyExternalState_cases:
  "applyExternalState cfg w v s =
     (case setStateFault w v of
        NoFault \<Rightarrow> (None, s\<lparr>state := v, suppressPersist := False\<rparr>)
      | ThrowBeforeAssign e \<Rightarrow> (Some e, s\<lparr>suppressPersist := True\<rparr>)
      | ThrowAfterAssign e \<Rightarrow> (Some e, s\<lparr>state := v, suppressPersist := True\<rparr>))"
  by (simp add: applyExternalState_def setState_suppressed split: fault.splits)

lemma map_of_map_keep:
  "map_of (map (\<lambda>(k, t). case g k of None \<Rightarrow> (k, t) | Some sv \<Rightarrow> (k, h t sv)) tfs) k =
     (case map_of tfs k of None \<Rightarrow> None
      | Some t \<Rightarrow> (case g k of None \<Rightarrow> Some t | Some sv \<Rightarrow> Some (h t sv)))"
  by (induction tfs) (auto split: option.splits)

lemma map_of_filter_key:
  "map_of (filter (\<lambda>(k, v). P k) sfs) k = (if P k then map_of sfs k else None)"
  by (induction sfs) auto

lemma deepMerge_prop:
  "deepMerge (JObj tfs) (JObj sfs) = JObj fs \<Longrightarrow>
   map_of fs k =
     (case map_of tfs k of
        Some t \<Rightarrow> (case map_of sfs k of Some sv \<Rightarrow> Some (deepMerge t sv) | None \<Rightarrow> Some t)
      | None \<Rightarrow> map_of sfs k)"
  by (auto simp: map_add_def map_of_map_keep map_of_filter_key split: option.splits)

lemma deepMerge_array: "deepMerge t (JArr ys) = JArr ys"
  by (cases t) simp_all

lemma deepMerge_example:
  "deepMerge (JObj [(''a'', JNum 1), (''arr'', JArr [JNum 1, JNum 2]),
                    (''b'', JObj [(''c'', JNum 2), (''d'', JNum 3)])])
             (JObj [(''arr'', JArr [JNum 9]), (''b'', JObj [(''c'', JNum 20)])])
   = JObj [(''a'', JNum 1), (''arr'', JArr [JNum 9]),
           (''b'', JObj [(''c'', JNum 20), (''d'', JNum 3)])]"
  by simp

lemma hydrateEntire_of_try:
  assumes "adapter cfg = Some a" and "shouldDiscardPersisted (hydrateConfig cfg) = Inr False"
    and "hydrateEntire_try cfg w (resolveKey cfg Entire None) = Inr (st, v)"
  shows "hydrateEntire cfg w s =
           (Inr v, s\<lparr>byKey := AList.update ''entire'' st (byKey s),
                     reads := reads s @ [resolveKey cfg Entire None]\<rparr>)"
  using assms by (simp add: hydrateEntire_def)

lemma hydrate_entire_ok:
  assumes "adapter cfg = Some a" and "strategy cfg = StrategyEntire"
    and "hydrateEntire cfg w s = (Inr v, s1)" and "setStateFault w v = NoFault"
  shows "state (hydrate cfg w s) = v" and "ready (hydrate cfg w s) = settle (ready s1) Resolved"
    and "isReady (hydrate cfg w s)"
  using assms by (simp_all add: hydrate_def applyState_cases finalizeHydration_def)

lemma clear_slices_append:
  "clear_slices cfg (xs @ ys) st =
     (case clear_slices cfg xs st of Inl e \<Rightarrow> Inl e | Inr n \<Rightarrow> clear_slices cfg ys n)"
  by (induction xs arbitrary: st) (simp_all split: sum.splits)

lemma handle_clear:
  assumes "adapter cfg = Some a"
  shows "handleAdapterEvent cfg w (AdapterEvent EvClear k) s =
     (if strategy cfg = StrategyEntire then applyExternalState cfg w (initialState cfg) s
      else (case clear_slices cfg (slices cfg) (initialState cfg) of
              Inl e \<Rightarrow> (Some e, s)
            | Inr nextState \<Rightarrow> applyExternalState cfg w nextState s))"
  using assms by (simp add: handleAdapterEvent_def reconcile_def)

lemma applyExternalState_reads: "reads (snd (applyExternalState cfg w v s)) = reads s"
  by (simp add: applyExternalState_cases split: fault.splits)

lemma applyExternalState_getItem:
  "applyExternalState cfg (w\<lparr>getItem := g\<rparr>) v s = applyExternalState cfg w v s"
  by (simp add: applyExternalState_cases)

lemma handle_set_entire:
  assumes "adapter cfg = Some a" and "k \<noteq> []" and "\<not> recentlyWritten cfg w s k"
    and "map_of (persistenceUnits cfg) k = Some (Entire, usk)"
  shows "handleAdapterEvent cfg w (AdapterEvent EvSet (Some k)) s =
     (case getItem w k of
        Inl e \<Rightarrow> (Some e, s\<lparr>reads := reads s @ [k]\<rparr>)
      | Inr raw \<Rightarrow>
          if nullish raw then (None, s\<lparr>reads := reads s @ [k]\<rparr>)
          else (case (case (case hydrateConfig cfg of None \<Rightarrow> None
                            | Some hc \<Rightarrow> hydrate_merge hc) of
                        Some merge \<Rightarrow> merge (initialState cfg) raw
                      | None \<Rightarrow> Inr (deepMerge (initialState cfg) raw)) of
                  Inl e \<Rightarrow> (Some e, s\<lparr>reads := reads s @ [k]\<rparr>)
                | Inr merged \<Rightarrow>
                    applyExternalState cfg w merged (s\<lparr>reads := reads s @ [k]\<rparr>)))"
  using assms by (simp add: handleAdapterEvent_def reconcile_def truthy_str_def cong: sum.case_cong if_cong)

lemma handle_set_slice:
  assumes "adapter cfg = Some a" and "k \<noteq> []" and "\<not> recentlyWritten cfg w s k"
    and "map_of (persistenceUnits cfg) k = Some (Slice, usk)"
    and "find (\<lambda>candidate. Some (slice_key candidate) = usk) (slices cfg) = Some sl"
  shows "handleAdapterEvent cfg w (AdapterEvent EvSet (Some k)) s =
     (case getItem w k of
        Inl e \<Rightarrow> (Some e, s\<lparr>reads := reads s @ [k]\<rparr>)
      | Inr raw \<Rightarrow>
          if nullish raw then (None, s\<lparr>reads := reads s @ [k]\<rparr>)
          else (case slice_apply sl (state s) raw of
                  Inl e \<Rightarrow> (Some e, s\<lparr>reads := reads s @ [k]\<rparr>)
                | Inr next \<Rightarrow>
                    applyExternalState cfg w next (s\<lparr>reads := reads s @ [k]\<rparr>)))"
  using assms by (simp add: handleAdapterEvent_def reconcile_def truthy_str_def cong: sum.case_cong if_cong)

lemma with_ledger_pair: "with_ledger L (r, s) = (r, s\<lparr>recentWrites := L\<rparr>)"
  by (simp add: with_ledger_def)

lemma ledger_reads_swap:
  "s\<lparr>recentWrites := L, reads := R\<rparr> = s\<lparr>reads := R, recentWrites := L\<rparr>"
  by simp

lemma applyExternalState_ledger:
  "applyExternalState cfg w v (s\<lparr>recentWrites := L\<rparr>)
     = with_ledger L (applyExternalState cfg w v s)"
  by (cases "setStateFault w v") (simp_all add: applyExternalState_cases with_ledger_def)

lemma reconcile_ledger:
  "reconcile cfg w ev (s\<lparr>recentWrites := L\<rparr>) = with_ledger L (reconcile cfg w ev s)"
  unfolding reconcile_def
  by (simp add: sum.case_distrib [of "with_ledger L"] option.case_distrib [of "with_ledger L"]
      prod.case_distrib [of "with_ledger L"] if_distrib [of "with_ledger L"]
      with_ledger_pair ledger_reads_swap applyExternalState_ledger
      split del: if_split
      cong: sum.case_cong option.case_cong if_cong prod.case_cong)

lemma reconcile_keeps_ledger:
  "with_ledger (recentWrites s) (reconcile cfg w ev s) = reconcile cfg w ev s"
  using reconcile_ledger [where s = s and L = "recentWrites s" and cfg = cfg and w = w and ev = ev] by simp

lemma with_ledger_twice: "with_ledger L (with_ledger L' p) = with_ledger L p"
  by (simp add: with_ledger_def)

lemma applyState_scheduled: "scheduled (snd (applyState cfg w v s)) = scheduled s"
  by (simp add: applyState_cases scheduled_def split: fault.splits)

lemma applyExternalState_scheduled:
  "scheduled (snd (applyExternalState cfg w v s)) = scheduled s"
  by (simp add: applyExternalState_cases scheduled_def split: fault.splits)

lemma scheduled_reads [simp]: "scheduled (s\<lparr>reads := r\<rparr>) = scheduled s"
  by (simp add: scheduled_def)

lemma scheduled_byKey [simp]: "scheduled (s\<lparr>byKey := b\<rparr>) = scheduled s"
  by (simp add: scheduled_def)

lemma scheduled_errors [simp]: "scheduled (s\<lparr>errors := e\<rparr>) = scheduled s"
  by (simp add: scheduled_def)

lemma scheduled_status [simp]:
  "scheduled (s\<lparr>overall := x\<rparr>) = scheduled s"
  "scheduled (s\<lparr>isReady := y\<rparr>) = scheduled s"
  "scheduled (s\<lparr>ready := z\<rparr>) = scheduled s"
  by (simp_all add: scheduled_def)

lemma scheduled_finalize [simp]: "scheduled (finalizeHydration cfg s) = scheduled s"
  by (simp add: finalizeHydration_def)

lemma scheduled_log_read [simp]: "scheduled (log_read cfg k s) = scheduled s"
  by (simp add: log_read_def)

lemma hydrateEntire_scheduled: "scheduled (snd (hydrateEntire cfg w s)) = scheduled s"
  by (simp add: hydrateEntire_def split: option.split sum.split bool.split prod.split)

lemma hydrateSlices_loop_scheduled:
  "scheduled (snd (hydrateSlices_loop cfg w xs nextState s)) = scheduled s"
  by (induction xs arbitrary: nextState s) (simp_all split: sum.split prod.split)

lemma hydrateSlices_scheduled: "scheduled (snd (hydrateSlices cfg w s)) = scheduled s"
proof -
  have "scheduled (snd (hydrateSlices_loop cfg w (slices cfg) (initialState cfg) s)) = scheduled s"
    by (rule hydrateSlices_loop_scheduled)
  then show ?thesis
    by (auto simp: hydrateSlices_def split: sum.split bool.split prod.split)
qed

lemma hydrate_catch_scheduled [simp]: "scheduled (hydrate_catch e s) = scheduled s"
  by (simp add: hydrate_catch_def scheduled_def)

lemma hydrate_scheduled: "scheduled (hydrate cfg w s) = scheduled s"
proof (cases "adapter cfg")
  case None
  then show ?thesis by (simp add: hydrate_def)
next
  case (Some a)
  obtain r s1 where h: "(if strategy cfg = StrategyEntire then hydrateEntire cfg w s
                         else hydrateSlices cfg w s) = (r, s1)"
    by (cases "if strategy cfg = StrategyEntire then hydrateEntire cfg w s
               else hydrateSlices cfg w s") blast
  have s1: "scheduled s1 = scheduled s"
    using h hydrateEntire_scheduled [of cfg w s] hydrateSlices_scheduled [of cfg w s]
    by (simp split: if_splits)
  show ?thesis
  proof (cases r)
    case (Inl e)
    then show ?thesis using Some h s1 by (simp add: hydrate_def)
  next
    case (Inr v)
    obtain r2 s2 where a: "applyState cfg w v s1 = (r2, s2)"
      by (cases "applyState cfg w v s1") blast
    have s2: "scheduled s2 = scheduled s"
      using applyState_scheduled [of cfg w v s1] a s1 by simp
    show ?thesis
      using Some h Inr a s2
      by (cases r2) (simp_all add: hydrate_def)
  qed
qed

lemma reconcile_scheduled: "scheduled (snd (reconcile cfg w ev s)) = scheduled s"
  by (simp add: reconcile_def applyExternalState_scheduled
      split: option.split sum.split prod.split)

lemma handleAdapterEvent_scheduled:
  "scheduled (snd (handleAdapterEvent cfg w ev s)) = scheduled s"
  by (simp add: handleAdapterEvent_def reconcile_scheduled split: option.split)

lemma enqueuePersist_scheduled:
  assumes "adapter cfg \<noteq> None"
  shows "scheduled (enqueuePersist cfg e s) \<noteq> scheduled s"
proof -
  obtain a where a: "adapter cfg = Some a" using assms by blast
  have ne: "AList.update (entry_key e) e (queuedPayloads s) \<noteq> []"
    by (cases "queuedPayloads s") simp_all
  show ?thesis
    using a ne
    by (simp add: enqueuePersist_def scheduleFlush_def flushQueue_def scheduled_def)
qed

lemma deliver_not_ready:
  "\<not> isReady s \<Longrightarrow>
   deliver cfg evs s = s\<lparr>pendingAdapterEvents := pendingAdapterEvents s @ map snd evs\<rparr>"
proof (induction evs arbitrary: s)
  case Nil
  then show ?case by simp
next
  case (Cons p evs)
  obtain w ev where p: "p = (w, ev)" by (cases p)
  have "\<not> isReady (adapterListener cfg w ev s)"
    using Cons.prems by (simp add: adapterListener_def)
  from Cons.IH [OF this] Cons.prems show ?case
    by (simp add: p adapterListener_def)
qed

lemma handle_no_adapter: "adapter cfg = None \<Longrightarrow> handleAdapterEvent cfg w ev s = (None, s)"
  by (simp add: handleAdapterEvent_def)

lemma deliver_no_adapter: "adapter cfg = None \<Longrightarrow> state (deliver cfg evs s) = state s"
proof (induction evs arbitrary: s)
  case Nil
  then show ?case by simp
next
  case (Cons p evs)
  obtain w ev where p: "p = (w, ev)" by (cases p)
  have "state (adapterListener cfg w ev s) = state s"
    using Cons.prems by (simp add: adapterListener_def handle_no_adapter)
  with Cons.IH [OF Cons.prems] show ?case
    by (simp add: p)
qed

lemma untouched_simps [simp]:
  "untouched (s\<lparr>byKey := b\<rparr>) = untouched s"
  "untouched (s\<lparr>reads := r\<rparr>) = untouched s"
  "untouched (s\<lparr>errors := e\<rparr>) = untouched s"
  "untouched (log_read cfg k s) = untouched s"
  by (simp_all add: untouched_def log_read_def)

lemma hydrateEntire_untouched: "untouched (snd (hydrateEntire cfg w s)) = untouched s"
  by (simp add: hydrateEntire_def split: option.split sum.split bool.split prod.split)

lemma hydrateSlices_loop_untouched:
  "untouched (snd (hydrateSlices_loop cfg w xs nextState s)) = untouched s"
  by (induction xs arbitrary: nextState s) (simp_all split: sum.split prod.split)

lemma hydrateSlices_untouched: "untouched (snd (hydrateSlices cfg w s)) = untouched s"
proof -
  have "untouched (snd (hydrateSlices_loop cfg w (slices cfg) (initialState cfg) s)) = untouched s"
    by (rule hydrateSlices_loop_untouched)
  then show ?thesis
    by (auto simp: hydrateSlices_def split: sum.split bool.split prod.split)
qed

lemma strategy_untouched:
  "untouched (snd (if strategy cfg = StrategyEntire then hydrateEntire cfg w s
                   else hydrateSlices cfg w s)) = untouched s"
  by (simp add: hydrateEntire_untouched hydrateSlices_untouched)

lemma hydrate_adapter:
  assumes "adapter cfg = Some a"
    and "(if strategy cfg = StrategyEntire then hydrateEntire cfg w s
          else hydrateSlices cfg w s) = (r, s1)"
  shows "hydrate cfg w s =
     (case r of
        Inl e \<Rightarrow> hydrate_catch e s1
      | Inr v \<Rightarrow>
          (case setStateFault w v of
             NoFault \<Rightarrow>
               (finalizeHydration cfg (s1\<lparr>state := v, suppressPersist := False\<rparr>))
                 \<lparr>isReady := True,
                  ready := settle (ready s1) Resolved\<rparr>
           | ThrowBeforeAssign e \<Rightarrow> hydrate_catch e (s1\<lparr>suppressPersist := True\<rparr>)
           | ThrowAfterAssign e \<Rightarrow> hydrate_catch e (s1\<lparr>state := v, suppressPersist := True\<rparr>)))"
  using assms
  by (simp add: hydrate_def applyState_cases finalizeHydration_def
      split: sum.split fault.split)

lemma state_finalize [simp]: "state (finalizeHydration cfg s) = state s"
  by (simp add: finalizeHydration_def)

lemma state_hydrate_catch [simp]: "state (hydrate_catch e s) = state s"
  by (simp add: hydrate_catch_def)

lemma applyExternalState_isReady:
  "isReady (snd (applyExternalState cfg w v s)) = isReady s"
  by (simp add: applyExternalState_cases split: fault.split)

lemma reconcile_isReady: "isReady (snd (reconcile cfg w ev s)) = isReady s"
  by (simp add: reconcile_def applyExternalState_isReady
      split: option.split sum.split prod.split)

lemma handleAdapterEvent_isReady: "isReady (snd (handleAdapterEvent cfg w ev s)) = isReady s"
  by (simp add: handleAdapterEvent_def reconcile_isReady split: option.split)

lemma replay_loop_isReady: "isReady (snd (replay_loop cfg w evs s)) = isReady s"
proof (induction evs arbitrary: s)
  case Nil
  then show ?case by simp
next
  case (Cons ev evs)
  obtain r s' where h: "handleAdapterEvent cfg w ev s = (r, s')"
    by (cases "handleAdapterEvent cfg w ev s") blast
  have s': "isReady s' = isReady s"
    using handleAdapterEvent_isReady [of cfg w ev s] h by simp
  show ?case
    using h s' Cons.IH [of s'] by (cases r) simp_all
qed

lemma replay_isReady: "isReady (snd (replay cfg w s)) = isReady s"
  by (simp add: replay_def replay_loop_isReady)

lemma hydrate_rejected:
  assumes "ready s = Unsettled" and "ready (hydrate cfg w s) = Rejected e"
  shows "isReady (hydrate cfg w s) = isReady s"
    and "pendingAdapterEvents (hydrate cfg w s) = pendingAdapterEvents s"
proof -
  obtain a where a: "adapter cfg = Some a"
    using assms by (cases "adapter cfg") (simp_all add: hydrate_def settle_def)
  obtain r s1 where h: "(if strategy cfg = StrategyEntire then hydrateEntire cfg w s
                         else hydrateSlices cfg w s) = (r, s1)"
    by (cases "if strategy cfg = StrategyEntire then hydrateEntire cfg w s
               else hydrateSlices cfg w s") blast
  have u: "untouched s1 = untouched s"
    using strategy_untouched [of cfg w s] h by simp
  have both: "isReady (hydrate cfg w s) = isReady s
            \<and> pendingAdapterEvents (hydrate cfg w s) = pendingAdapterEvents s"
    using assms u
    by (simp add: hydrate_adapter [OF a h] untouched_def hydrate_catch_def settle_def
        finalizeHydration_def split: sum.splits fault.splits)
  show "isReady (hydrate cfg w s) = isReady s" using both by simp
  show "pendingAdapterEvents (hydrate cfg w s) = pendingAdapterEvents s" using both by simp
qed

lemma reject_hydrate:
  "hydrate reject_cfg reject_world reject_buffered =
     reject_buffered\<lparr>suppressPersist := True, overall := Error,
        byKey := [(''entire'', Hydrated)],
        errors := [Exn ''applyState failed''], reads := [''nusm:hydrate-reject:entire''],
        ready := Rejected (Exn ''applyState failed'')\<rparr>"
  by (simp add: hydrate_def hydrateEntire_def hydrateEntire_try_def validatePersisted_def
      reject_cfg_def reject_world_def reject_buffered_def adapterListener_def
      createNusmStore_def initial_byKey_def truthy_str_def memoryAdapter_def resolveKey_def
      defaultResolveKey_def shouldDiscardPersisted_def nullish_def applyState_cases
      hydrate_catch_def settle_def)

lemma hydrateEntire_throws:
  "adapter cfg = Some a \<Longrightarrow>
   (fst (hydrateEntire cfg w s) = Inl e) = (shouldDiscardPersisted (hydrateConfig cfg) = Inl e)"
  by (auto simp: hydrateEntire_def split: sum.split bool.split prod.split)

lemma hydrateSlices_throws:
  "(fst (hydrateSlices cfg w s) = Inl e) = (shouldDiscardPersisted (hydrateConfig cfg) = Inl e)"
  by (auto simp: hydrateSlices_def split: sum.split bool.split prod.split)

lemma strategy_throws:
  assumes "adapter cfg = Some a"
    and "(if strategy cfg = StrategyEntire then hydrateEntire cfg w s
          else hydrateSlices cfg w s) = (r, s1)"
  shows "(r = Inl e) = (shouldDiscardPersisted (hydrateConfig cfg) = Inl e)"
  using assms hydrateEntire_throws [of cfg a w s e] hydrateSlices_throws [of cfg w s e]
  by (auto split: if_splits)

lemma applyState_throws:
  "(fst (applyState cfg w v s) = Some e)
     = (setStateFault w v = ThrowBeforeAssign e \<or> setStateFault w v = ThrowAfterAssign e)"
  by (cases "setStateFault w v") (simp_all add: applyState_cases)

lemma loop_append:
  "hydrateSlices_loop cfg w (xs @ ys) n s =
     (case hydrateSlices_loop cfg w xs n s of (n1, s1) \<Rightarrow> hydrateSlices_loop cfg w ys n1 s1)"
  by (induction xs arbitrary: n s) (simp_all split: sum.split prod.split)

lemma loop_fst_indep:
  "fst (hydrateSlices_loop cfg w xs n s) = fst (hydrateSlices_loop cfg w xs n s')"
proof (induction xs arbitrary: n s s')
  case Nil
  then show ?case by simp
next
  case (Cons sl xs)
  show ?case
  proof (cases "hydrateSlice_try cfg w sl n")
    case (Inl e)
    then show ?thesis using Cons.IH by simp
  next
    case (Inr p)
    obtain st nxt where p: "p = (st, nxt)" by (cases p)
    show ?thesis using Inr p Cons.IH by simp
  qed
qed

lemma byKey_log_read [simp]: "byKey (log_read cfg k s) = byKey s"
  by (simp add: log_read_def)

lemma errors_log_read [simp]: "errors (log_read cfg k s) = errors s"
  by (simp add: log_read_def)

lemma loop_status_other:
  "map_of (byKey s) k = map_of (byKey s') k \<Longrightarrow>
   map_of (byKey (snd (hydrateSlices_loop cfg w xs n s))) k
     = map_of (byKey (snd (hydrateSlices_loop cfg w xs n s'))) k"
proof (induction xs arbitrary: n s s')
  case Nil
  then show ?case by simp
next
  case (Cons sl xs)
  show ?case
  proof (cases "hydrateSlice_try cfg w sl n")
    case (Inl e)
    show ?thesis
      using Inl Cons.prems by (simp add: update_conv') (rule Cons.IH, simp add: update_conv')
  next
    case (Inr p)
    obtain st nxt where p: "p = (st, nxt)" by (cases p)
    show ?thesis
      using Inr p Cons.prems by simp (rule Cons.IH, simp add: update_conv')
  qed
qed

lemma loop_status_absent:
  "k \<notin> slice_key ` set xs \<Longrightarrow>
   map_of (byKey (snd (hydrateSlices_loop cfg w xs n s))) k = map_of (byKey s) k"
proof (induction xs arbitrary: n s)
  case Nil
  then show ?case by simp
next
  case (Cons sl xs)
  have k: "k \<noteq> slice_key sl" and rest: "k \<notin> slice_key ` set xs"
    using Cons.prems by auto
  show ?case
  proof (cases "hydrateSlice_try cfg w sl n")
    case (Inl e)
    show ?thesis
      using Inl k by (simp add: Cons.IH [OF rest] update_conv')
  next
    case (Inr p)
    obtain st nxt where p: "p = (st, nxt)" by (cases p)
    show ?thesis
      using Inr p k by (simp add: Cons.IH [OF rest] update_conv')
  qed
qed

lemma loop_errors_grow:
  "set (errors s) \<subseteq> set (errors (snd (hydrateSlices_loop cfg w xs n s)))"
proof (induction xs arbitrary: n s)
  case Nil
  then show ?case by simp
next
  case (Cons sl xs)
  show ?case
  proof (cases "hydrateSlice_try cfg w sl n")
    case (Inl e)
    have "set (errors (log_read cfg (resolveKey cfg Slice (Some (slice_key sl)))
                 (s\<lparr>byKey := AList.update (slice_key sl) Error (byKey s),
                    errors := errors s @ [e]\<rparr>)))
          \<subseteq> set (errors (snd (hydrateSlices_loop cfg w xs n
                 (log_read cfg (resolveKey cfg Slice (Some (slice_key sl)))
                 (s\<lparr>byKey := AList.update (slice_key sl) Error (byKey s),
                    errors := errors s @ [e]\<rparr>)))))"
      by (rule Cons.IH)
    then show ?thesis using Inl by auto
  next
    case (Inr p)
    obtain st nxt where p: "p = (st, nxt)" by (cases p)
    have "set (errors (log_read cfg (resolveKey cfg Slice (Some (slice_key sl)))
                 (s\<lparr>byKey := AList.update (slice_key sl) st (byKey s)\<rparr>)))
          \<subseteq> set (errors (snd (hydrateSlices_loop cfg w xs nxt
                 (log_read cfg (resolveKey cfg Slice (Some (slice_key sl)))
                 (s\<lparr>byKey := AList.update (slice_key sl) st (byKey s)\<rparr>)))))"
      by (rule Cons.IH)
    then show ?thesis using Inr p by auto
  qed
qed

text \<open>A unit whose try block throws, in the middle of the loop.\<close>

lemma loop_failing_unit:
  assumes "hydrateSlice_try cfg w sl (fst (hydrateSlices_loop cfg w pre n s)) = Inl e"
    and "slice_key sl \<notin> slice_key ` set post"
  shows "fst (hydrateSlices_loop cfg w (pre @ sl # post) n s)
           = fst (hydrateSlices_loop cfg w (pre @ post) n s)"
    and "map_of (byKey (snd (hydrateSlices_loop cfg w (pre @ sl # post) n s))) (slice_key sl)
           = Some Error"
    and "k \<noteq> slice_key sl \<Longrightarrow>
         map_of (byKey (snd (hydrateSlices_loop cfg w (pre @ sl # post) n s))) k
           = map_of (byKey (snd (hydrateSlices_loop cfg w (pre @ post) n s))) k"
    and "e \<in> set (errors (snd (hydrateSlices_loop cfg w (pre @ sl # post) n s)))"
proof -
  obtain n1 s1 where pre: "hydrateSlices_loop cfg w pre n s = (n1, s1)"
    by (cases "hydrateSlices_loop cfg w pre n s") blast
  have thr: "hydrateSlice_try cfg w sl n1 = Inl e"
    using assms(1) pre by simp
  define s2 where "s2 = log_read cfg (resolveKey cfg Slice (Some (slice_key sl)))
                 (s1\<lparr>byKey := AList.update (slice_key sl) Error (byKey s1),
                    errors := errors s1 @ [e]\<rparr>)"
  have full: "hydrateSlices_loop cfg w (pre @ sl # post) n s = hydrateSlices_loop cfg w post n1 s2"
    using pre thr by (simp add: loop_append s2_def)
  have short: "hydrateSlices_loop cfg w (pre @ post) n s = hydrateSlices_loop cfg w post n1 s1"
    using pre by (simp add: loop_append)
  show "fst (hydrateSlices_loop cfg w (pre @ sl # post) n s)
           = fst (hydrateSlices_loop cfg w (pre @ post) n s)"
    by (simp only: full short) (rule loop_fst_indep)
  have "map_of (byKey (snd (hydrateSlices_loop cfg w post n1 s2))) (slice_key sl)
          = map_of (byKey s2) (slice_key sl)"
    by (rule loop_status_absent [OF assms(2)])
  then show "map_of (byKey (snd (hydrateSlices_loop cfg w (pre @ sl # post) n s))) (slice_key sl)
           = Some Error"
    by (simp add: full s2_def update_conv')
  show "map_of (byKey (snd (hydrateSlices_loop cfg w (pre @ sl # post) n s))) k
           = map_of (byKey (snd (hydrateSlices_loop cfg w (pre @ post) n s))) k"
    if "k \<noteq> slice_key sl"
  proof -
    have "map_of (byKey s2) k = map_of (byKey s1) k"
      using that by (simp add: s2_def update_conv')
    then show ?thesis
      by (simp only: full short) (rule loop_status_other)
  qed
  have "e \<in> set (errors s2)" by (simp add: s2_def)
  then show "e \<in> set (errors (snd (hydrateSlices_loop cfg w (pre @ sl # post) n s)))"
    using loop_errors_grow [of s2 cfg w post n1] by (auto simp: full)
qed

lemma update_has_value: "v \<in> snd ` set (AList.update k v al)"
proof -
  have "map_of (AList.update k v al) k = Some v" by (simp add: update_conv')
  then have "(k, v) \<in> set (AList.update k v al)" by (rule map_of_SomeD)
  then show ?thesis by force
qed

lemma validatePersisted_throws:
  "(validatePersisted cfg raw = Inl e) =
     (\<exists>hc validate. hydrateConfig cfg = Some hc \<and> hydrate_validate hc = Some validate
        \<and> validate raw = Inl e)"
  by (auto simp: validatePersisted_def split: option.splits sum.splits if_splits)

lemma hydrateEntire_try_throws:
  "(hydrateEntire_try cfg w k = Inl e) =
     (getItem w k = Inl e
      \<or> (\<exists>raw. getItem w k = Inr raw \<and> \<not> nullish raw
            \<and> (validatePersisted cfg raw = Inl e
               \<or> (\<exists>pv merge. validatePersisted cfg raw = Inr (Some pv)
                     \<and> (case hydrateConfig cfg of None \<Rightarrow> None | Some hc \<Rightarrow> hydrate_merge hc)
                         = Some merge
                     \<and> merge (initialState cfg) pv = Inl e))))"
  by (auto simp: hydrateEntire_try_def split: option.splits sum.splits if_splits)

lemma hydrateSlice_try_throws:
  "adapter cfg = Some a \<Longrightarrow>
   (hydrateSlice_try cfg w sl n = Inl e) =
     (getItem w (resolveKey cfg Slice (Some (slice_key sl))) = Inl e
      \<or> (\<exists>raw. getItem w (resolveKey cfg Slice (Some (slice_key sl))) = Inr raw \<and> \<not> nullish raw
            \<and> (validatePersisted cfg raw = Inl e
               \<or> (\<exists>pv. validatePersisted cfg raw = Inr (Some pv)
                     \<and> slice_apply sl n pv = Inl e))))"
  by (auto simp: hydrateSlice_try_def split: option.splits sum.splits if_splits)

lemma entire_unit_error:
  assumes "adapter cfg = Some a" and "shouldDiscardPersisted (hydrateConfig cfg) = Inr False"
    and "ready s = Unsettled" and "strategy cfg = StrategyEntire"
    and "hydrateEntire_try cfg w (resolveKey cfg Entire None) = Inl e"
  shows "hydrateEntire cfg w s =
           (Inr (initialState cfg),
            s\<lparr>byKey := AList.update ''entire'' Error (byKey s),
              errors := errors s @ [e],
              reads := reads s @ [resolveKey cfg Entire None]\<rparr>)
       \<and> (setStateFault w (initialState cfg) = NoFault \<longrightarrow>
            ready (hydrate cfg w s) = Resolved
          \<and> state (hydrate cfg w s) = initialState cfg
          \<and> overall (hydrate cfg w s) = Error
          \<and> errors (hydrate cfg w s) = errors s @ [e])"
proof -
  have he: "hydrateEntire cfg w s =
           (Inr (initialState cfg),
            s\<lparr>byKey := AList.update ''entire'' Error (byKey s),
              errors := errors s @ [e],
              reads := reads s @ [resolveKey cfg Entire None]\<rparr>)"
    using assms(1,2,5) by (simp add: hydrateEntire_def)
  have h: "(if strategy cfg = StrategyEntire then hydrateEntire cfg w s
            else hydrateSlices cfg w s) =
           (Inr (initialState cfg),
            s\<lparr>byKey := AList.update ''entire'' Error (byKey s),
              errors := errors s @ [e],
              reads := reads s @ [resolveKey cfg Entire None]\<rparr>)"
    using he assms(4) by simp
  have m: "Error \<in> snd ` set (AList.update ''entire'' Error (byKey s))"
    by (rule update_has_value)
  have "setStateFault w (initialState cfg) = NoFault \<longrightarrow>
            ready (hydrate cfg w s) = Resolved
          \<and> state (hydrate cfg w s) = initialState cfg
          \<and> overall (hydrate cfg w s) = Error
          \<and> errors (hydrate cfg w s) = errors s @ [e]"
    using assms(3) m
    by (simp add: hydrate_adapter [OF assms(1) h] finalizeHydration_def settle_def)
  with he show ?thesis by (rule conjI)
qed

lemma slice_unit_error:
  assumes "adapter cfg = Some a" and "shouldDiscardPersisted (hydrateConfig cfg) = Inr False"
    and "ready s = Unsettled" and "strategy cfg \<noteq> StrategyEntire"
    and "slices cfg = pre @ sl # post" and "slice_key sl \<notin> slice_key ` set post"
    and "hydrateSlice_try cfg w sl (fst (hydrateSlices_loop cfg w pre (initialState cfg) s)) = Inl e"
  shows "fst (hydrateSlices cfg w s)
           = Inr (fst (hydrateSlices_loop cfg w (pre @ post) (initialState cfg) s))
       \<and> map_of (byKey (snd (hydrateSlices cfg w s))) (slice_key sl) = Some Error
       \<and> (\<forall>k. k \<noteq> slice_key sl \<longrightarrow>
             map_of (byKey (snd (hydrateSlices cfg w s))) k
               = map_of (byKey (snd (hydrateSlices_loop cfg w (pre @ post) (initialState cfg) s))) k)
       \<and> e \<in> set (errors (snd (hydrateSlices cfg w s)))
       \<and> (setStateFault w (fst (hydrateSlices_loop cfg w (pre @ post) (initialState cfg) s)) = NoFault
            \<longrightarrow> ready (hydrate cfg w s) = Resolved
              \<and> state (hydrate cfg w s)
                  = fst (hydrateSlices_loop cfg w (pre @ post) (initialState cfg) s)
              \<and> overall (hydrate cfg w s) = Error)"
proof -
  note f = loop_failing_unit [OF assms(7,6)]
  obtain n' s' where L: "hydrateSlices_loop cfg w (pre @ sl # post) (initialState cfg) s = (n', s')"
    by (cases "hydrateSlices_loop cfg w (pre @ sl # post) (initialState cfg) s") blast
  have hs: "hydrateSlices cfg w s = (Inr n', s')"
    using assms(2,5) L by (simp add: hydrateSlices_def)
  have n': "n' = fst (hydrateSlices_loop cfg w (pre @ post) (initialState cfg) s)"
    using f(1) L by simp
  have st: "map_of (byKey s') (slice_key sl) = Some Error"
    using f(2) L by simp
  have oth: "\<forall>k. k \<noteq> slice_key sl \<longrightarrow>
             map_of (byKey s') k
               = map_of (byKey (snd (hydrateSlices_loop cfg w (pre @ post) (initialState cfg) s))) k"
    using f(3) L by simp
  have er: "e \<in> set (errors s')"
    using f(4) L by simp
  have h: "(if strategy cfg = StrategyEntire then hydrateEntire cfg w s
            else hydrateSlices cfg w s) = (Inr n', s')"
    using hs assms(4) by simp
  have u: "untouched s' = untouched s"
    using hydrateSlices_untouched [of cfg w s] hs by simp
  have rs': "ready s' = Unsettled"
    using u assms(3) by (simp add: untouched_def)
  have "(slice_key sl, Error) \<in> set (byKey s')"
    using st by (rule map_of_SomeD)
  then have m: "Error \<in> snd ` set (byKey s')" by force
  have rd: "setStateFault w n' = NoFault \<longrightarrow>
              ready (hydrate cfg w s) = Resolved \<and> state (hydrate cfg w s) = n'
              \<and> overall (hydrate cfg w s) = Error"
    using rs' m by (simp add: hydrate_adapter [OF assms(1) h] finalizeHydration_def settle_def)
  show ?thesis
    using hs n' st oth er rd by simp
qed

lemma handle_remove_entire:
  assumes "adapter cfg = Some a" and "k \<noteq> []" and "\<not> recentlyWritten cfg w s k"
    and "map_of (persistenceUnits cfg) k = Some (Entire, usk)"
  shows "handleAdapterEvent cfg w (AdapterEvent EvRemove (Some k)) s
           = applyExternalState cfg w (initialState cfg) s"
  using assms by (simp add: handleAdapterEvent_def reconcile_def truthy_str_def)

lemma handle_remove_slice:
  assumes "adapter cfg = Some a" and "k \<noteq> []" and "\<not> recentlyWritten cfg w s k"
    and "map_of (persistenceUnits cfg) k = Some (Slice, usk)"
    and "find (\<lambda>candidate. Some (slice_key candidate) = usk) (slices cfg) = Some sl"
  shows "handleAdapterEvent cfg w (AdapterEvent EvRemove (Some k)) s =
     (case slice_select sl (initialState cfg) of
        Inl e \<Rightarrow> (Some e, s)
      | Inr resetValue \<Rightarrow>
          (case slice_apply sl (state s) resetValue of
             Inl e \<Rightarrow> (Some e, s)
           | Inr nxt \<Rightarrow> applyExternalState cfg w nxt s))"
  using assms by (simp add: handleAdapterEvent_def reconcile_def truthy_str_def)

lemma take_is_prefix: "(take (length sub) xs = sub) = (\<exists>q. xs = sub @ q)"
proof
  assume "take (length sub) xs = sub"
  then have "xs = sub @ drop (length sub) xs"
    by (metis append_take_drop_id)
  then show "\<exists>q. xs = sub @ q" ..
next
  assume "\<exists>q. xs = sub @ q"
  then show "take (length sub) xs = sub" by auto
qed

lemma includes_str_iff: "includes_str s sub = (\<exists>p q. s = p @ sub @ q)"
proof (induction s)
  case Nil
  then show ?case by auto
next
  case (Cons c cs)
  show ?case
  proof
    assume "includes_str (c # cs) sub"
    then consider "take (length sub) (c # cs) = sub" | "includes_str cs sub" by auto
    then show "\<exists>p q. c # cs = p @ sub @ q"
    proof cases
      case 1
      then obtain q where "c # cs = sub @ q" using take_is_prefix [of sub "c # cs"] by blast
      then have "c # cs = [] @ sub @ q" by simp
      then show ?thesis by blast
    next
      case 2
      then obtain p q where "cs = p @ sub @ q" using Cons.IH by blast
      then have "c # cs = (c # p) @ sub @ q" by simp
      then show ?thesis by blast
    qed
  next
    assume "\<exists>p q. c # cs = p @ sub @ q"
    then obtain p q where pq: "c # cs = p @ sub @ q" by blast
    show "includes_str (c # cs) sub"
    proof (cases p)
      case Nil
      then have "take (length sub) (c # cs) = sub"
        using pq take_is_prefix [of sub "c # cs"] by auto
      then show ?thesis by simp
    next
      case (Cons x p')
      then have "cs = p' @ sub @ q" using pq by simp
      then have "includes_str cs sub" using Cons.IH by blast
      then show ?thesis by simp
    qed
  qed
qed

lemma toLowerCase_names:
  "toLowerCase ''IndexedDB'' = ''indexeddb''"
  "toLowerCase ''INDEXDB'' = ''indexdb''"
  "toLowerCase ''indexdb'' = ''indexdb''"
  "toLowerCase ''localStorage'' = ''localstorage''"
  "toLowerCase ''sessionStorage'' = ''sessionstorage''"
  "toLowerCase ''memory'' = ''memory''"
  by code_simp+

section \<open>Claims\<close>

text \<open>
  Claim C1 (amended). After readiness a \<open>clear\<close> event, under the slice strategy, assigns
  the state obtained by starting from the initial state and applying, slice by slice in
  configured order, each slice's reducer to that slice's projection of the initial state:
  the live state is not consulted, so what no slice covers is reset to its initial value
  as well. Under the entire strategy the state becomes the initial state. In neither case
  is the backend read: the log of reads is unchanged and the outcome does not depend on
  what the backend holds.
\<close>

theorem clear_event:
  assumes "adapter cfg = Some a" and "isReady s"
  shows "(strategy cfg = StrategyEntire \<longrightarrow> setStateFault w (initialState cfg) = NoFault \<longrightarrow>
            adapterListener cfg w (AdapterEvent EvClear k) s
              = s\<lparr>state := initialState cfg, suppressPersist := False\<rparr>)
       \<and> (strategy cfg \<noteq> StrategyEntire \<longrightarrow>
            (\<forall>nextState. clear_slices cfg (slices cfg) (initialState cfg) = Inr nextState \<longrightarrow>
               setStateFault w nextState = NoFault \<longrightarrow>
               adapterListener cfg w (AdapterEvent EvClear k) s
                 = s\<lparr>state := nextState, suppressPersist := False\<rparr>))
       \<and> (\<forall>sl rest st. clear_slices cfg (sl # rest) st =
            (case slice_select sl (initialState cfg) of
               Inl e \<Rightarrow> Inl e
             | Inr v \<Rightarrow> (case slice_apply sl st v of
                           Inl e \<Rightarrow> Inl e
                         | Inr next \<Rightarrow> clear_slices cfg rest next)))
       \<and> reads (adapterListener cfg w (AdapterEvent EvClear k) s) = reads s
       \<and> (\<forall>g. adapterListener cfg (w\<lparr>getItem := g\<rparr>) (AdapterEvent EvClear k) s
              = adapterListener cfg w (AdapterEvent EvClear k) s)"
proof -
  note h = handle_clear [OF assms(1)]
  have c1: "strategy cfg = StrategyEntire \<longrightarrow> setStateFault w (initialState cfg) = NoFault \<longrightarrow>
            adapterListener cfg w (AdapterEvent EvClear k) s
              = s\<lparr>state := initialState cfg, suppressPersist := False\<rparr>"
    using assms(2) by (simp add: adapterListener_def h applyExternalState_cases)
  have c2: "strategy cfg \<noteq> StrategyEntire \<longrightarrow>
            (\<forall>nextState. clear_slices cfg (slices cfg) (initialState cfg) = Inr nextState \<longrightarrow>
               setStateFault w nextState = NoFault \<longrightarrow>
               adapterListener cfg w (AdapterEvent EvClear k) s
                 = s\<lparr>state := nextState, suppressPersist := False\<rparr>)"
    using assms(2) by (simp add: adapterListener_def h applyExternalState_cases)
  have c3: "\<forall>sl rest st. clear_slices cfg (sl # rest) st =
            (case slice_select sl (initialState cfg) of
               Inl e \<Rightarrow> Inl e
             | Inr v \<Rightarrow> (case slice_apply sl st v of
                           Inl e \<Rightarrow> Inl e
                         | Inr next \<Rightarrow> clear_slices cfg rest next))"
    by simp
  have c4: "reads (adapterListener cfg w (AdapterEvent EvClear k) s) = reads s"
    using assms(2)
    by (simp add: adapterListener_def h applyExternalState_reads split: sum.splits)
  have c5: "\<forall>g. adapterListener cfg (w\<lparr>getItem := g\<rparr>) (AdapterEvent EvClear k) s
              = adapterListener cfg w (AdapterEvent EvClear k) s"
    using assms(2)
    by (simp add: adapterListener_def h applyExternalState_getItem split: sum.splits)
  show ?thesis
    by (intro conjI, rule c1, rule c2, rule c3, rule c4, rule c5)
qed

theorem clear_event_witness:
  "adapterListener todos_cfg (quiet (\<lambda>k. Inr (JArr [JNum 7]))) (AdapterEvent EvClear None) todos_live
     = todos_live\<lparr>state := JObj [(''filter'', JStr ''all''), (''todos'', JArr [])],
                  suppressPersist := False\<rparr>"
proof -
  have h1: "adapter todos_cfg = Some memoryAdapter" by (simp add: todos_cfg_def)
  have h2: "isReady todos_live" by (simp add: todos_live_def)
  have h3: "strategy todos_cfg \<noteq> StrategyEntire" by (simp add: todos_cfg_def)
  have h4: "clear_slices todos_cfg (slices todos_cfg) (initialState todos_cfg)
              = Inr (JObj [(''filter'', JStr ''all''), (''todos'', JArr [])])"
    by (simp add: todos_cfg_def field_slice_def get_field_def set_field_def)
  have h5: "setStateFault (quiet (\<lambda>k. Inr (JArr [JNum 7])))
              (JObj [(''filter'', JStr ''all''), (''todos'', JArr [])]) = NoFault"
    by (simp add: quiet_def)
  show ?thesis
    using clear_event [OF h1 h2, of "quiet (\<lambda>k. Inr (JArr [JNum 7]))" None] h3 h4 h5
    by simp
qed

text \<open>
  Claim C1 as stated fails where the live state differs from the initial state outside
  every slice: resetting the slices on the live state would keep \<open>filter = "done"\<close>, and the
  code assigns the initial \<open>filter = "all"\<close>.
\<close>

theorem clear_live_state_counterexample:
  "clear_slices todos_cfg (slices todos_cfg) (state todos_live)
     = Inr (JObj [(''filter'', JStr ''done''), (''todos'', JArr [])])
   \<and> state (adapterListener todos_cfg (quiet (\<lambda>k. Inr (JArr [JNum 7])))
              (AdapterEvent EvClear None) todos_live)
       \<noteq> JObj [(''filter'', JStr ''done''), (''todos'', JArr [])]"
  by (simp add: todos_cfg_def todos_live_def field_slice_def get_field_def set_field_def
      adapterListener_def handleAdapterEvent_def reconcile_def applyExternalState_cases quiet_def
      createNusmStore_def memoryAdapter_def)

text \<open>
  Claim C2. In an entire-strategy hydration with no caller-supplied merge function, an
  accepted persisted value yields the deep merge of the initial state with it: the value
  \<open>hydrateEntire\<close> returns and the state \<open>hydrate\<close> assigns. In the merge an array on the
  persisted side replaces the target whole, and two objects merge key by key, recursively.
  The example of the specification evaluates as it says.
\<close>

theorem entire_hydration_deep_merge:
  assumes "adapter cfg = Some a" and "strategy cfg = StrategyEntire"
    and "shouldDiscardPersisted (hydrateConfig cfg) = Inr False"
    and "getItem w (resolveKey cfg Entire None) = Inr raw" and "\<not> nullish raw"
    and "validatePersisted cfg raw = Inr (Some persisted)"
    and "(case hydrateConfig cfg of None \<Rightarrow> None | Some hc \<Rightarrow> hydrate_merge hc) = None"
    and "setStateFault w (deepMerge (initialState cfg) persisted) = NoFault"
  shows "fst (hydrateEntire cfg w s) = Inr (deepMerge (initialState cfg) persisted)
       \<and> state (hydrate cfg w s) = deepMerge (initialState cfg) persisted
       \<and> (\<forall>t ys. deepMerge t (JArr ys) = JArr ys)
       \<and> (\<forall>tfs sfs k. \<exists>fs. deepMerge (JObj tfs) (JObj sfs) = JObj fs \<and>
            map_of fs k =
              (case map_of tfs k of
                 Some t \<Rightarrow> (case map_of sfs k of Some sv \<Rightarrow> Some (deepMerge t sv) | None \<Rightarrow> Some t)
               | None \<Rightarrow> map_of sfs k))
       \<and> deepMerge (JObj [(''a'', JNum 1), (''arr'', JArr [JNum 1, JNum 2]),
                          (''b'', JObj [(''c'', JNum 2), (''d'', JNum 3)])])
                   (JObj [(''arr'', JArr [JNum 9]), (''b'', JObj [(''c'', JNum 20)])])
         = JObj [(''a'', JNum 1), (''arr'', JArr [JNum 9]),
                 (''b'', JObj [(''c'', JNum 20), (''d'', JNum 3)])]"
proof -
  have body: "hydrateEntire_try cfg w (resolveKey cfg Entire None)
               = Inr (Hydrated, deepMerge (initialState cfg) persisted)"
    using assms(4-7) by (simp add: hydrateEntire_try_def)
  have he: "hydrateEntire cfg w s =
      (Inr (deepMerge (initialState cfg) persisted),
       s\<lparr>byKey := AList.update ''entire'' Hydrated (byKey s),
         reads := reads s @ [resolveKey cfg Entire None]\<rparr>)"
    using assms(1,3) body by (simp add: hydrateEntire_def)
  have c1: "fst (hydrateEntire cfg w s) = Inr (deepMerge (initialState cfg) persisted)"
    using he by simp
  have c2: "state (hydrate cfg w s) = deepMerge (initialState cfg) persisted"
    using assms(1,2,8) he
    by (simp add: hydrate_def applyState_cases finalizeHydration_def)
  have c3: "\<forall>t ys. deepMerge t (JArr ys) = JArr ys"
    by (simp add: deepMerge_array)
  have c4: "\<forall>tfs sfs k. \<exists>fs. deepMerge (JObj tfs) (JObj sfs) = JObj fs \<and>
            map_of fs k =
              (case map_of tfs k of
                 Some t \<Rightarrow> (case map_of sfs k of Some sv \<Rightarrow> Some (deepMerge t sv) | None \<Rightarrow> Some t)
               | None \<Rightarrow> map_of sfs k)"
  proof (intro allI)
    fix tfs sfs k
    obtain fs where fs: "deepMerge (JObj tfs) (JObj sfs) = JObj fs" by simp
    have "deepMerge (JObj tfs) (JObj sfs) = JObj fs \<and>
            map_of fs k =
              (case map_of tfs k of
                 Some t \<Rightarrow> (case map_of sfs k of Some sv \<Rightarrow> Some (deepMerge t sv) | None \<Rightarrow> Some t)
               | None \<Rightarrow> map_of sfs k)"
      using fs deepMerge_prop [OF fs, of k] by (rule conjI)
    then show "\<exists>fs. deepMerge (JObj tfs) (JObj sfs) = JObj fs \<and>
            map_of fs k =
              (case map_of tfs k of
                 Some t \<Rightarrow> (case map_of sfs k of Some sv \<Rightarrow> Some (deepMerge t sv) | None \<Rightarrow> Some t)
               | None \<Rightarrow> map_of sfs k)"
      by (rule exI)
  qed
  show ?thesis
    by (intro conjI, rule c1, rule c2, rule c3, rule c4, rule deepMerge_example)
qed

theorem entire_hydration_deep_merge_witness:
  "state (hydrate merge_cfg (quiet merge_backend) (projr (createNusmStore merge_cfg)))
     = JObj [(''a'', JNum 1), (''arr'', JArr [JNum 9]),
             (''b'', JObj [(''c'', JNum 20), (''d'', JNum 3)])]"
proof -
  have h1: "adapter merge_cfg = Some memoryAdapter" by (simp add: merge_cfg_def)
  have h2: "strategy merge_cfg = StrategyEntire" by (simp add: merge_cfg_def)
  have h3: "shouldDiscardPersisted (hydrateConfig merge_cfg) = Inr False"
    by (simp add: merge_cfg_def shouldDiscardPersisted_def)
  have h4: "getItem (quiet merge_backend) (resolveKey merge_cfg Entire None)
              = Inr (JObj [(''arr'', JArr [JNum 9]), (''b'', JObj [(''c'', JNum 20)])])"
    by (simp add: merge_cfg_def quiet_def merge_backend_def resolveKey_def truthy_str_def
        defaultResolveKey_def memoryAdapter_def)
  have h5: "\<not> nullish (JObj [(''arr'', JArr [JNum 9]), (''b'', JObj [(''c'', JNum 20)])])"
    by (simp add: nullish_def)
  have h6: "validatePersisted merge_cfg (JObj [(''arr'', JArr [JNum 9]), (''b'', JObj [(''c'', JNum 20)])])
              = Inr (Some (JObj [(''arr'', JArr [JNum 9]), (''b'', JObj [(''c'', JNum 20)])]))"
    by (simp add: validatePersisted_def merge_cfg_def)
  have h7: "(case hydrateConfig merge_cfg of None \<Rightarrow> None | Some hc \<Rightarrow> hydrate_merge hc) = None"
    by (simp add: merge_cfg_def)
  have h8: "setStateFault (quiet merge_backend) (deepMerge (initialState merge_cfg)
              (JObj [(''arr'', JArr [JNum 9]), (''b'', JObj [(''c'', JNum 20)])])) = NoFault"
    by (simp add: quiet_def)
  show ?thesis
    using entire_hydration_deep_merge [OF h1 h2 h3 h4 h5 h6 h7 h8,
        of "projr (createNusmStore merge_cfg)"]
    by (simp add: merge_cfg_def)
qed

text \<open>
  Claim C3. A \<open>set\<close> event that the ledger does not suppress re-reads the backend value of
  its key. On the entire unit's key a null read changes nothing; otherwise the new state is
  the merge of the initial state with the value read (the configured merge function, or the
  deep merge), which is the state hydration builds from the same value, and it is the same
  from whatever live state the event is handled. On a slice unit's key the slice's reducer
  applies the value read onto the live state.
\<close>

theorem set_event:
  assumes "adapter cfg = Some a" and "k \<noteq> []" and "\<not> recentlyWritten cfg w s k"
    and "map_of (persistenceUnits cfg) k = Some (uk, usk)"
    and "getItem w k = Inr raw"
  shows "(uk = Entire \<longrightarrow>
           (nullish raw \<longrightarrow>
              handleAdapterEvent cfg w (AdapterEvent EvSet (Some k)) s
                = (None, s\<lparr>reads := reads s @ [k]\<rparr>))
         \<and> (\<not> nullish raw \<longrightarrow>
              (\<forall>merged.
                 (case (case hydrateConfig cfg of None \<Rightarrow> None | Some hc \<Rightarrow> hydrate_merge hc) of
                    Some merge \<Rightarrow> merge (initialState cfg) raw
                  | None \<Rightarrow> Inr (deepMerge (initialState cfg) raw)) = Inr merged \<longrightarrow>
                 setStateFault w merged = NoFault \<longrightarrow>
                   handleAdapterEvent cfg w (AdapterEvent EvSet (Some k)) s
                     = (None, s\<lparr>state := merged, suppressPersist := False,
                                 reads := reads s @ [k]\<rparr>)
                 \<and> (\<forall>s'. \<not> recentlyWritten cfg w s' k \<longrightarrow>
                        state (snd (handleAdapterEvent cfg w (AdapterEvent EvSet (Some k)) s'))
                          = merged)
                 \<and> (validatePersisted cfg raw = Inr (Some raw) \<longrightarrow>
                        hydrateEntire_try cfg w k = Inr (Hydrated, merged)))))
       \<and> (uk = Slice \<longrightarrow>
           (\<forall>sl. find (\<lambda>candidate. Some (slice_key candidate) = usk) (slices cfg) = Some sl \<longrightarrow>
              (nullish raw \<longrightarrow>
                 handleAdapterEvent cfg w (AdapterEvent EvSet (Some k)) s
                   = (None, s\<lparr>reads := reads s @ [k]\<rparr>))
            \<and> (\<not> nullish raw \<longrightarrow>
                 (\<forall>next. slice_apply sl (state s) raw = Inr next \<longrightarrow>
                    setStateFault w next = NoFault \<longrightarrow>
                    handleAdapterEvent cfg w (AdapterEvent EvSet (Some k)) s
                      = (None, s\<lparr>state := next, suppressPersist := False,
                                  reads := reads s @ [k]\<rparr>)))))"
proof -
  have entire: "uk = Entire \<longrightarrow>
           (nullish raw \<longrightarrow>
              handleAdapterEvent cfg w (AdapterEvent EvSet (Some k)) s
                = (None, s\<lparr>reads := reads s @ [k]\<rparr>))
         \<and> (\<not> nullish raw \<longrightarrow>
              (\<forall>merged.
                 (case (case hydrateConfig cfg of None \<Rightarrow> None | Some hc \<Rightarrow> hydrate_merge hc) of
                    Some merge \<Rightarrow> merge (initialState cfg) raw
                  | None \<Rightarrow> Inr (deepMerge (initialState cfg) raw)) = Inr merged \<longrightarrow>
                 setStateFault w merged = NoFault \<longrightarrow>
                   handleAdapterEvent cfg w (AdapterEvent EvSet (Some k)) s
                     = (None, s\<lparr>state := merged, suppressPersist := False,
                                 reads := reads s @ [k]\<rparr>)
                 \<and> (\<forall>s'. \<not> recentlyWritten cfg w s' k \<longrightarrow>
                        state (snd (handleAdapterEvent cfg w (AdapterEvent EvSet (Some k)) s'))
                          = merged)
                 \<and> (validatePersisted cfg raw = Inr (Some raw) \<longrightarrow>
                        hydrateEntire_try cfg w k = Inr (Hydrated, merged))))"
  proof (intro impI)
    assume uk: "uk = Entire"
    have unit: "map_of (persistenceUnits cfg) k = Some (Entire, usk)"
      using assms(4) uk by simp
    have any: "\<And>s'. \<not> recentlyWritten cfg w s' k \<Longrightarrow>
       handleAdapterEvent cfg w (AdapterEvent EvSet (Some k)) s' =
         (if nullish raw then (None, s'\<lparr>reads := reads s' @ [k]\<rparr>)
          else (case (case (case hydrateConfig cfg of None \<Rightarrow> None
                            | Some hc \<Rightarrow> hydrate_merge hc) of
                        Some merge \<Rightarrow> merge (initialState cfg) raw
                      | None \<Rightarrow> Inr (deepMerge (initialState cfg) raw)) of
                  Inl e \<Rightarrow> (Some e, s'\<lparr>reads := reads s' @ [k]\<rparr>)
                | Inr merged \<Rightarrow>
                    applyExternalState cfg w merged (s'\<lparr>reads := reads s' @ [k]\<rparr>)))"
      using handle_set_entire [OF assms(1,2) _ unit] assms(5) by simp
    show "(nullish raw \<longrightarrow>
              handleAdapterEvent cfg w (AdapterEvent EvSet (Some k)) s
                = (None, s\<lparr>reads := reads s @ [k]\<rparr>))
         \<and> (\<not> nullish raw \<longrightarrow>
              (\<forall>merged.
                 (case (case hydrateConfig cfg of None \<Rightarrow> None | Some hc \<Rightarrow> hydrate_merge hc) of
                    Some merge \<Rightarrow> merge (initialState cfg) raw
                  | None \<Rightarrow> Inr (deepMerge (initialState cfg) raw)) = Inr merged \<longrightarrow>
                 setStateFault w merged = NoFault \<longrightarrow>
                   handleAdapterEvent cfg w (AdapterEvent EvSet (Some k)) s
                     = (None, s\<lparr>state := merged, suppressPersist := False,
                                 reads := reads s @ [k]\<rparr>)
                 \<and> (\<forall>s'. \<not> recentlyWritten cfg w s' k \<longrightarrow>
                        state (snd (handleAdapterEvent cfg w (AdapterEvent EvSet (Some k)) s'))
                          = merged)
                 \<and> (validatePersisted cfg raw = Inr (Some raw) \<longrightarrow>
                        hydrateEntire_try cfg w k = Inr (Hydrated, merged))))"
      using any [OF assms(3)] any assms(5)
      by (auto simp: applyExternalState_cases hydrateEntire_try_def split: option.splits sum.splits)
  qed
  have slice: "uk = Slice \<longrightarrow>
           (\<forall>sl. find (\<lambda>candidate. Some (slice_key candidate) = usk) (slices cfg) = Some sl \<longrightarrow>
              (nullish raw \<longrightarrow>
                 handleAdapterEvent cfg w (AdapterEvent EvSet (Some k)) s
                   = (None, s\<lparr>reads := reads s @ [k]\<rparr>))
            \<and> (\<not> nullish raw \<longrightarrow>
                 (\<forall>next. slice_apply sl (state s) raw = Inr next \<longrightarrow>
                    setStateFault w next = NoFault \<longrightarrow>
                    handleAdapterEvent cfg w (AdapterEvent EvSet (Some k)) s
                      = (None, s\<lparr>state := next, suppressPersist := False,
                                  reads := reads s @ [k]\<rparr>))))"
  proof (intro impI allI)
    fix sl
    assume uk: "uk = Slice"
      and f: "find (\<lambda>candidate. Some (slice_key candidate) = usk) (slices cfg) = Some sl"
    have unit: "map_of (persistenceUnits cfg) k = Some (Slice, usk)"
      using assms(4) uk by simp
    show "(nullish raw \<longrightarrow>
                 handleAdapterEvent cfg w (AdapterEvent EvSet (Some k)) s
                   = (None, s\<lparr>reads := reads s @ [k]\<rparr>))
            \<and> (\<not> nullish raw \<longrightarrow>
                 (\<forall>next. slice_apply sl (state s) raw = Inr next \<longrightarrow>
                    setStateFault w next = NoFault \<longrightarrow>
                    handleAdapterEvent cfg w (AdapterEvent EvSet (Some k)) s
                      = (None, s\<lparr>state := next, suppressPersist := False,
                                  reads := reads s @ [k]\<rparr>)))"
      using handle_set_slice [OF assms(1,2,3) unit f] assms(5)
      by (simp add: applyExternalState_cases)
  qed
  show ?thesis
    by (intro conjI, rule entire, rule slice)
qed

theorem set_event_witness:
  "handleAdapterEvent merge_cfg (quiet merge_backend)
     (AdapterEvent EvSet (Some ''nusm:merge:entire'')) merge_live
   = (None, merge_live\<lparr>state := JObj [(''a'', JNum 1), (''arr'', JArr [JNum 9]),
                                        (''b'', JObj [(''c'', JNum 20), (''d'', JNum 3)])],
                        suppressPersist := False,
                        reads := reads merge_live @ [''nusm:merge:entire'']\<rparr>)"
proof -
  have h1: "adapter merge_cfg = Some memoryAdapter" by (simp add: merge_cfg_def)
  have h2: "''nusm:merge:entire'' \<noteq> []" by simp
  have h3: "\<not> recentlyWritten merge_cfg (quiet merge_backend) merge_live ''nusm:merge:entire''"
    by (simp add: recentlyWritten_def merge_live_def createNusmStore_def merge_cfg_def truthy_str_def)
  have h4: "map_of (persistenceUnits merge_cfg) ''nusm:merge:entire'' = Some (Entire, None)"
    by (simp add: persistenceUnits_def merge_cfg_def resolveKey_def truthy_str_def
        memoryAdapter_def defaultResolveKey_def)
  have h5: "getItem (quiet merge_backend) ''nusm:merge:entire''
              = Inr (JObj [(''arr'', JArr [JNum 9]), (''b'', JObj [(''c'', JNum 20)])])"
    by (simp add: quiet_def merge_backend_def)
  have n: "\<not> nullish (JObj [(''arr'', JArr [JNum 9]), (''b'', JObj [(''c'', JNum 20)])])"
    by (simp add: nullish_def)
  have m: "(case (case hydrateConfig merge_cfg of None \<Rightarrow> None | Some hc \<Rightarrow> hydrate_merge hc) of
              Some merge \<Rightarrow> merge (initialState merge_cfg)
                  (JObj [(''arr'', JArr [JNum 9]), (''b'', JObj [(''c'', JNum 20)])])
            | None \<Rightarrow> Inr (deepMerge (initialState merge_cfg)
                  (JObj [(''arr'', JArr [JNum 9]), (''b'', JObj [(''c'', JNum 20)])])))
           = Inr (JObj [(''a'', JNum 1), (''arr'', JArr [JNum 9]),
                        (''b'', JObj [(''c'', JNum 20), (''d'', JNum 3)])])"
    by (simp add: merge_cfg_def)
  have f: "setStateFault (quiet merge_backend) (JObj [(''a'', JNum 1), (''arr'', JArr [JNum 9]),
                        (''b'', JObj [(''c'', JNum 20), (''d'', JNum 3)])]) = NoFault"
    by (simp add: quiet_def)
  show ?thesis
    by (rule set_event [OF h1 h2 h3 h4 h5, THEN conjunct1, rule_format, OF refl,
          THEN conjunct2, rule_format, OF n m f, THEN conjunct1])
qed

text \<open>
  Claim C4. A \<open>set\<close> or \<open>remove\<close> event whose key has a ledger entry younger than the
  suppression window is ignored: the handler returns the store as it was. Once the window
  has elapsed the event is processed: it is handled as if the key had no ledger entry, so
  a \<open>remove\<close> resets the unit and a \<open>set\<close> re-reads the backend and applies the value, on
  the entire unit's key and on a slice unit's key. The window is 1000 ms when the adapter's
  name, in lower case, contains \<open>index\<close> (as \<open>indexdb\<close> and \<open>IndexedDB\<close> do), and 500 ms
  otherwise. A ledger entry is a reading of \<open>Date.now()\<close>, which is not 0; the guard
  \<open>lastWrite && ...\<close> reads a timestamp of 0 as no entry.
\<close>

theorem echo_suppression:
  assumes "adapter cfg = Some a" and "ev_type ev \<noteq> EvClear" and "ev_key ev = Some k"
    and "recentWrites s k = Some lastWrite" and "lastWrite \<noteq> 0"
  shows "(now w - lastWrite < recentWriteWindowMs cfg \<longrightarrow>
            handleAdapterEvent cfg w ev s = (None, s))
       \<and> (recentWriteWindowMs cfg \<le> now w - lastWrite \<longrightarrow>
            handleAdapterEvent cfg w ev s =
              (fst (handleAdapterEvent cfg w ev (s\<lparr>recentWrites := (recentWrites s)(k := None)\<rparr>)),
               (snd (handleAdapterEvent cfg w ev (s\<lparr>recentWrites := (recentWrites s)(k := None)\<rparr>)))
                 \<lparr>recentWrites := recentWrites s\<rparr>))
       \<and> (recentWriteWindowMs cfg \<le> now w - lastWrite \<longrightarrow> k \<noteq> [] \<longrightarrow>
            (\<forall>usk. map_of (persistenceUnits cfg) k = Some (Entire, usk) \<longrightarrow>
               (ev_type ev = EvRemove \<longrightarrow> setStateFault w (initialState cfg) = NoFault \<longrightarrow>
                  handleAdapterEvent cfg w ev s
                    = (None, s\<lparr>state := initialState cfg, suppressPersist := False\<rparr>))
             \<and> (ev_type ev = EvSet \<longrightarrow>
                  (\<forall>raw merged.
                     getItem w k = Inr raw \<longrightarrow> \<not> nullish raw \<longrightarrow>
                     (case (case hydrateConfig cfg of None \<Rightarrow> None | Some hc \<Rightarrow> hydrate_merge hc) of
                        Some merge \<Rightarrow> merge (initialState cfg) raw
                      | None \<Rightarrow> Inr (deepMerge (initialState cfg) raw)) = Inr merged \<longrightarrow>
                     setStateFault w merged = NoFault \<longrightarrow>
                     handleAdapterEvent cfg w ev s
                       = (None, s\<lparr>state := merged, suppressPersist := False,
                                   reads := reads s @ [k]\<rparr>)))))
       \<and> (recentWriteWindowMs cfg \<le> now w - lastWrite \<longrightarrow> k \<noteq> [] \<longrightarrow>
            (\<forall>usk sl. map_of (persistenceUnits cfg) k = Some (Slice, usk) \<longrightarrow>
               find (\<lambda>candidate. Some (slice_key candidate) = usk) (slices cfg) = Some sl \<longrightarrow>
               (ev_type ev = EvRemove \<longrightarrow>
                  (\<forall>resetValue nxt.
                     slice_select sl (initialState cfg) = Inr resetValue \<longrightarrow>
                     slice_apply sl (state s) resetValue = Inr nxt \<longrightarrow>
                     setStateFault w nxt = NoFault \<longrightarrow>
                     handleAdapterEvent cfg w ev s
                       = (None, s\<lparr>state := nxt, suppressPersist := False\<rparr>)))
             \<and> (ev_type ev = EvSet \<longrightarrow>
                  (\<forall>raw nxt.
                     getItem w k = Inr raw \<longrightarrow> \<not> nullish raw \<longrightarrow>
                     slice_apply sl (state s) raw = Inr nxt \<longrightarrow>
                     setStateFault w nxt = NoFault \<longrightarrow>
                     handleAdapterEvent cfg w ev s
                       = (None, s\<lparr>state := nxt, suppressPersist := False,
                                   reads := reads s @ [k]\<rparr>)))))
       \<and> (recentWriteWindowMs cfg =
            (if \<exists>p q. toLowerCase (name a) = p @ ''index'' @ q then 1000 else 500))
       \<and> (name a = ''indexdb'' \<or> name a = ''IndexedDB'' \<or> name a = ''INDEXDB'' \<longrightarrow>
            recentWriteWindowMs cfg = 1000)
       \<and> (name a = ''localStorage'' \<or> name a = ''sessionStorage'' \<or> name a = ''memory'' \<longrightarrow>
            recentWriteWindowMs cfg = 500)
       \<and> (toLowerCase ''IndexedDB'' = ''indexeddb'' )"
proof -
  let ?s0 = "s\<lparr>recentWrites := (recentWrites s)(k := None)\<rparr>"
  have c1: "now w - lastWrite < recentWriteWindowMs cfg \<longrightarrow>
            handleAdapterEvent cfg w ev s = (None, s)"
  proof (cases "k = []")
    case True
    then show ?thesis
      using assms(1-3) by (simp add: handleAdapterEvent_def reconcile_def truthy_str_def)
  next
    case False
    then show ?thesis
      using assms by (simp add: handleAdapterEvent_def truthy_str_def recentlyWritten_def)
  qed
  have c2: "recentWriteWindowMs cfg \<le> now w - lastWrite \<longrightarrow>
            handleAdapterEvent cfg w ev s =
              (fst (handleAdapterEvent cfg w ev ?s0),
               (snd (handleAdapterEvent cfg w ev ?s0))\<lparr>recentWrites := recentWrites s\<rparr>)"
  proof
    assume late: "recentWriteWindowMs cfg \<le> now w - lastWrite"
    have a: "handleAdapterEvent cfg w ev s = reconcile cfg w ev s"
      using assms late by (simp add: handleAdapterEvent_def recentlyWritten_def)
    have b: "handleAdapterEvent cfg w ev ?s0 = reconcile cfg w ev ?s0"
      using assms by (simp add: handleAdapterEvent_def recentlyWritten_def)
    have "with_ledger (recentWrites s) (handleAdapterEvent cfg w ev ?s0)
            = handleAdapterEvent cfg w ev s"
      by (simp only: a b reconcile_ledger with_ledger_twice reconcile_keeps_ledger)
    then show "handleAdapterEvent cfg w ev s =
              (fst (handleAdapterEvent cfg w ev ?s0),
               (snd (handleAdapterEvent cfg w ev ?s0))\<lparr>recentWrites := recentWrites s\<rparr>)"
      by (simp add: with_ledger_def)
  qed
  have late: "\<not> recentlyWritten cfg w s k" if "recentWriteWindowMs cfg \<le> now w - lastWrite"
    using that assms(4) by (simp add: recentlyWritten_def)
  have rm: "ev = AdapterEvent EvRemove (Some k)" if "ev_type ev = EvRemove"
    using that assms(3) by (cases ev) simp
  have st: "ev = AdapterEvent EvSet (Some k)" if "ev_type ev = EvSet"
    using that assms(3) by (cases ev) simp
  have c2a: "recentWriteWindowMs cfg \<le> now w - lastWrite \<longrightarrow> k \<noteq> [] \<longrightarrow>
            (\<forall>usk. map_of (persistenceUnits cfg) k = Some (Entire, usk) \<longrightarrow>
               (ev_type ev = EvRemove \<longrightarrow> setStateFault w (initialState cfg) = NoFault \<longrightarrow>
                  handleAdapterEvent cfg w ev s
                    = (None, s\<lparr>state := initialState cfg, suppressPersist := False\<rparr>))
             \<and> (ev_type ev = EvSet \<longrightarrow>
                  (\<forall>raw merged.
                     getItem w k = Inr raw \<longrightarrow> \<not> nullish raw \<longrightarrow>
                     (case (case hydrateConfig cfg of None \<Rightarrow> None | Some hc \<Rightarrow> hydrate_merge hc) of
                        Some merge \<Rightarrow> merge (initialState cfg) raw
                      | None \<Rightarrow> Inr (deepMerge (initialState cfg) raw)) = Inr merged \<longrightarrow>
                     setStateFault w merged = NoFault \<longrightarrow>
                     handleAdapterEvent cfg w ev s
                       = (None, s\<lparr>state := merged, suppressPersist := False,
                                   reads := reads s @ [k]\<rparr>))))"
  proof (intro impI allI conjI)
    fix usk
    assume l: "recentWriteWindowMs cfg \<le> now w - lastWrite" and k: "k \<noteq> []"
      and u: "map_of (persistenceUnits cfg) k = Some (Entire, usk)"
    {
      assume t: "ev_type ev = EvRemove" and f: "setStateFault w (initialState cfg) = NoFault"
      show "handleAdapterEvent cfg w ev s
              = (None, s\<lparr>state := initialState cfg, suppressPersist := False\<rparr>)"
        using handle_remove_entire [OF assms(1) k late [OF l] u] f
        by (simp add: rm [OF t] applyExternalState_cases)
    }
    {
      fix raw merged
      assume t: "ev_type ev = EvSet" and g: "getItem w k = Inr raw" and n: "\<not> nullish raw"
        and m: "(case (case hydrateConfig cfg of None \<Rightarrow> None | Some hc \<Rightarrow> hydrate_merge hc) of
                        Some merge \<Rightarrow> merge (initialState cfg) raw
                      | None \<Rightarrow> Inr (deepMerge (initialState cfg) raw)) = Inr merged"
        and f: "setStateFault w merged = NoFault"
      show "handleAdapterEvent cfg w ev s
              = (None, s\<lparr>state := merged, suppressPersist := False,
                          reads := reads s @ [k]\<rparr>)"
        using handle_set_entire [OF assms(1) k late [OF l] u] g n m f
        by (simp add: st [OF t] applyExternalState_cases)
    }
  qed
  have c2b: "recentWriteWindowMs cfg \<le> now w - lastWrite \<longrightarrow> k \<noteq> [] \<longrightarrow>
            (\<forall>usk sl. map_of (persistenceUnits cfg) k = Some (Slice, usk) \<longrightarrow>
               find (\<lambda>candidate. Some (slice_key candidate) = usk) (slices cfg) = Some sl \<longrightarrow>
               (ev_type ev = EvRemove \<longrightarrow>
                  (\<forall>resetValue nxt.
                     slice_select sl (initialState cfg) = Inr resetValue \<longrightarrow>
                     slice_apply sl (state s) resetValue = Inr nxt \<longrightarrow>
                     setStateFault w nxt = NoFault \<longrightarrow>
                     handleAdapterEvent cfg w ev s
                       = (None, s\<lparr>state := nxt, suppressPersist := False\<rparr>)))
             \<and> (ev_type ev = EvSet \<longrightarrow>
                  (\<forall>raw nxt.
                     getItem w k = Inr raw \<longrightarrow> \<not> nullish raw \<longrightarrow>
                     slice_apply sl (state s) raw = Inr nxt \<longrightarrow>
                     setStateFault w nxt = NoFault \<longrightarrow>
                     handleAdapterEvent cfg w ev s
                       = (None, s\<lparr>state := nxt, suppressPersist := False,
                                   reads := reads s @ [k]\<rparr>))))"
  proof (intro impI allI conjI)
    fix usk sl
    assume l: "recentWriteWindowMs cfg \<le> now w - lastWrite" and k: "k \<noteq> []"
      and u: "map_of (persistenceUnits cfg) k = Some (Slice, usk)"
      and fd: "find (\<lambda>candidate. Some (slice_key candidate) = usk) (slices cfg) = Some sl"
    {
      fix resetValue nxt
      assume t: "ev_type ev = EvRemove"
        and sv: "slice_select sl (initialState cfg) = Inr resetValue"
        and ap: "slice_apply sl (state s) resetValue = Inr nxt"
        and f: "setStateFault w nxt = NoFault"
      show "handleAdapterEvent cfg w ev s
              = (None, s\<lparr>state := nxt, suppressPersist := False\<rparr>)"
        using handle_remove_slice [OF assms(1) k late [OF l] u fd] sv ap f
        by (simp add: rm [OF t] applyExternalState_cases)
    }
    {
      fix raw nxt
      assume t: "ev_type ev = EvSet" and g: "getItem w k = Inr raw" and n: "\<not> nullish raw"
        and ap: "slice_apply sl (state s) raw = Inr nxt"
        and f: "setStateFault w nxt = NoFault"
      show "handleAdapterEvent cfg w ev s
              = (None, s\<lparr>state := nxt, suppressPersist := False,
                          reads := reads s @ [k]\<rparr>)"
        using handle_set_slice [OF assms(1) k late [OF l] u fd] g n ap f
        by (simp add: st [OF t] applyExternalState_cases)
    }
  qed
  have c3: "recentWriteWindowMs cfg =
            (if \<exists>p q. toLowerCase (name a) = p @ ''index'' @ q then 1000 else 500)"
    using assms(1) by (simp add: recentWriteWindowMs_def includes_str_iff)
  have c3': "recentWriteWindowMs cfg =
            (if includes_str (toLowerCase (name a)) ''index'' then 1000 else 500)"
    using assms(1) by (simp add: recentWriteWindowMs_def)
  have c4: "name a = ''indexdb'' \<or> name a = ''IndexedDB'' \<or> name a = ''INDEXDB'' \<longrightarrow>
            recentWriteWindowMs cfg = 1000"
    by (auto simp: c3' toLowerCase_names)
  have c5: "name a = ''localStorage'' \<or> name a = ''sessionStorage'' \<or> name a = ''memory'' \<longrightarrow>
            recentWriteWindowMs cfg = 500"
    by (auto simp: c3' toLowerCase_names)
  have c6: "toLowerCase ''IndexedDB'' = ''indexeddb'' "
    by (rule toLowerCase_names)
  show ?thesis
    by (intro conjI, rule c1, rule c2, rule c2a, rule c2b, rule c3, rule c4, rule c5, rule c6)
qed

theorem echo_suppression_witness:
  "recentWrites flushed_live ''nusm:merge:entire'' = Some 5000
   \<and> recentWriteWindowMs merge_cfg = 500
   \<and> handleAdapterEvent merge_cfg ((quiet merge_backend)\<lparr>now := 5200\<rparr>)
        (AdapterEvent EvSet (Some ''nusm:merge:entire'')) flushed_live = (None, flushed_live)
   \<and> handleAdapterEvent merge_cfg ((quiet merge_backend)\<lparr>now := 5600\<rparr>)
        (AdapterEvent EvSet (Some ''nusm:merge:entire'')) flushed_live
       = (None, flushed_live\<lparr>state := JObj [(''a'', JNum 1), (''arr'', JArr [JNum 9]),
                                              (''b'', JObj [(''c'', JNum 20), (''d'', JNum 3)])],
                              suppressPersist := False,
                              reads := reads flushed_live @ [''nusm:merge:entire'']\<rparr>)
   \<and> handleAdapterEvent merge_cfg ((quiet merge_backend)\<lparr>now := 5600\<rparr>)
        (AdapterEvent EvRemove (Some ''nusm:merge:entire'')) flushed_live
       = (None, flushed_live\<lparr>state := initialState merge_cfg, suppressPersist := False\<rparr>)"
proof -
  let ?k = "''nusm:merge:entire''"
  let ?early = "(quiet merge_backend)\<lparr>now := 5200\<rparr>"
  let ?late = "(quiet merge_backend)\<lparr>now := 5600\<rparr>"
  let ?raw = "JObj [(''arr'', JArr [JNum 9]), (''b'', JObj [(''c'', JNum 20)])]"
  let ?merged = "JObj [(''a'', JNum 1), (''arr'', JArr [JNum 9]),
                       (''b'', JObj [(''c'', JNum 20), (''d'', JNum 3)])]"
  have h1: "adapter merge_cfg = Some memoryAdapter" by (simp add: merge_cfg_def)
  have s2: "ev_type (AdapterEvent EvSet (Some ?k)) \<noteq> EvClear" by simp
  have s3: "ev_key (AdapterEvent EvSet (Some ?k)) = Some ?k" by simp
  have r2: "ev_type (AdapterEvent EvRemove (Some ?k)) \<noteq> EvClear" by simp
  have r3: "ev_key (AdapterEvent EvRemove (Some ?k)) = Some ?k" by simp
  have h4: "recentWrites flushed_live ?k = Some 5000"
    by (simp add: flushed_live_def settleWrite_def quiet_def)
  have h5: "(5000 :: int) \<noteq> 0" by simp
  have n: "name memoryAdapter = ''memory''" by (simp add: memoryAdapter_def)
  have win: "recentWriteWindowMs merge_cfg = 500"
    using echo_suppression [OF h1 s2 s3 h4 h5, of ?early] n by simp
  have c3: "handleAdapterEvent merge_cfg ?early (AdapterEvent EvSet (Some ?k)) flushed_live
              = (None, flushed_live)"
    using echo_suppression [OF h1 s2 s3 h4 h5, of ?early] win by simp
  have late: "recentWriteWindowMs merge_cfg \<le> now ?late - 5000"
    by (simp add: win)
  have ne: "?k \<noteq> []" by simp
  have u: "map_of (persistenceUnits merge_cfg) ?k = Some (Entire, None)"
    by (simp add: persistenceUnits_def merge_cfg_def resolveKey_def truthy_str_def
        memoryAdapter_def defaultResolveKey_def)
  have g: "getItem ?late ?k = Inr ?raw"
    by (simp add: quiet_def merge_backend_def)
  have nn: "\<not> nullish ?raw" by (simp add: nullish_def)
  have m: "(case (case hydrateConfig merge_cfg of None \<Rightarrow> None | Some hc \<Rightarrow> hydrate_merge hc) of
              Some merge \<Rightarrow> merge (initialState merge_cfg) ?raw
            | None \<Rightarrow> Inr (deepMerge (initialState merge_cfg) ?raw)) = Inr ?merged"
    by (simp add: merge_cfg_def)
  have f1: "setStateFault ?late ?merged = NoFault" by (simp add: quiet_def)
  have f2: "setStateFault ?late (initialState merge_cfg) = NoFault" by (simp add: quiet_def)
  have c4: "handleAdapterEvent merge_cfg ?late (AdapterEvent EvSet (Some ?k)) flushed_live
       = (None, flushed_live\<lparr>state := ?merged, suppressPersist := False,
                              reads := reads flushed_live @ [?k]\<rparr>)"
    by (rule echo_suppression [OF h1 s2 s3 h4 h5, of ?late, THEN conjunct2, THEN conjunct2,
          THEN conjunct1, rule_format, OF late ne u, THEN conjunct2, rule_format,
          OF _ g nn m f1]) simp
  have c5: "handleAdapterEvent merge_cfg ?late (AdapterEvent EvRemove (Some ?k)) flushed_live
       = (None, flushed_live\<lparr>state := initialState merge_cfg, suppressPersist := False\<rparr>)"
    by (rule echo_suppression [OF h1 r2 r3 h4 h5, of ?late, THEN conjunct2, THEN conjunct2,
          THEN conjunct1, rule_format, OF late ne u, THEN conjunct1, rule_format,
          OF _ f2]) simp
  show ?thesis
    by (intro conjI, rule h4, rule win, rule c3, rule c4, rule c5)
qed

text \<open>
  Claim C5. What the \<open>try\<close> block of a unit throws is what reading the backend, the
  validation function or the merge (for a slice, its reducer) throws. Such an exception is
  caught for that unit alone: the unit's status becomes \<open>error\<close>, the exception is reported
  to the error sink, and the state is what it would be had the unit been left out: the
  initial state under the entire strategy, and under the slice strategy the result of
  hydrating the other slices, whose statuses are the same too. The Readiness Signal is
  then resolved, with the overall status \<open>error\<close>, provided applying the state does not throw.
\<close>

theorem unit_errors_contained:
  assumes "adapter cfg = Some a" and "shouldDiscardPersisted (hydrateConfig cfg) = Inr False"
    and "ready s = Unsettled"
  shows "(\<forall>raw. (validatePersisted cfg raw = Inl e) =
             (\<exists>hc validate. hydrateConfig cfg = Some hc \<and> hydrate_validate hc = Some validate
                \<and> validate raw = Inl e))
       \<and> (\<forall>k. (hydrateEntire_try cfg w k = Inl e) =
             (getItem w k = Inl e
              \<or> (\<exists>raw. getItem w k = Inr raw \<and> \<not> nullish raw
                    \<and> (validatePersisted cfg raw = Inl e
                       \<or> (\<exists>pv merge. validatePersisted cfg raw = Inr (Some pv)
                             \<and> (case hydrateConfig cfg of None \<Rightarrow> None | Some hc \<Rightarrow> hydrate_merge hc)
                                 = Some merge
                             \<and> merge (initialState cfg) pv = Inl e)))))
       \<and> (\<forall>sl n. (hydrateSlice_try cfg w sl n = Inl e) =
             (getItem w (resolveKey cfg Slice (Some (slice_key sl))) = Inl e
              \<or> (\<exists>raw. getItem w (resolveKey cfg Slice (Some (slice_key sl))) = Inr raw \<and> \<not> nullish raw
                    \<and> (validatePersisted cfg raw = Inl e
                       \<or> (\<exists>pv. validatePersisted cfg raw = Inr (Some pv)
                             \<and> slice_apply sl n pv = Inl e)))))
       \<and> (strategy cfg = StrategyEntire \<longrightarrow>
            hydrateEntire_try cfg w (resolveKey cfg Entire None) = Inl e \<longrightarrow>
            hydrateEntire cfg w s =
               (Inr (initialState cfg),
                s\<lparr>byKey := AList.update ''entire'' Error (byKey s),
                  errors := errors s @ [e],
                  reads := reads s @ [resolveKey cfg Entire None]\<rparr>)
           \<and> (setStateFault w (initialState cfg) = NoFault \<longrightarrow>
                ready (hydrate cfg w s) = Resolved
              \<and> state (hydrate cfg w s) = initialState cfg
              \<and> overall (hydrate cfg w s) = Error
              \<and> errors (hydrate cfg w s) = errors s @ [e]))
       \<and> (strategy cfg \<noteq> StrategyEntire \<longrightarrow>
            (\<forall>pre sl post.
               slices cfg = pre @ sl # post \<longrightarrow> slice_key sl \<notin> slice_key ` set post \<longrightarrow>
               hydrateSlice_try cfg w sl (fst (hydrateSlices_loop cfg w pre (initialState cfg) s))
                 = Inl e \<longrightarrow>
               fst (hydrateSlices cfg w s)
                  = Inr (fst (hydrateSlices_loop cfg w (pre @ post) (initialState cfg) s))
              \<and> map_of (byKey (snd (hydrateSlices cfg w s))) (slice_key sl) = Some Error
              \<and> (\<forall>k. k \<noteq> slice_key sl \<longrightarrow>
                    map_of (byKey (snd (hydrateSlices cfg w s))) k
                      = map_of (byKey (snd (hydrateSlices_loop cfg w (pre @ post) (initialState cfg) s))) k)
              \<and> e \<in> set (errors (snd (hydrateSlices cfg w s)))
              \<and> (setStateFault w (fst (hydrateSlices_loop cfg w (pre @ post) (initialState cfg) s)) = NoFault
                   \<longrightarrow> ready (hydrate cfg w s) = Resolved
                     \<and> state (hydrate cfg w s)
                         = fst (hydrateSlices_loop cfg w (pre @ post) (initialState cfg) s)
                     \<and> overall (hydrate cfg w s) = Error)))"
proof -
  have c1: "(\<forall>raw. (validatePersisted cfg raw = Inl e) =
             (\<exists>hc validate. hydrateConfig cfg = Some hc \<and> hydrate_validate hc = Some validate
                \<and> validate raw = Inl e))"
    by (intro allI, rule validatePersisted_throws)
  have c2: "(\<forall>k. (hydrateEntire_try cfg w k = Inl e) =
             (getItem w k = Inl e
              \<or> (\<exists>raw. getItem w k = Inr raw \<and> \<not> nullish raw
                    \<and> (validatePersisted cfg raw = Inl e
                       \<or> (\<exists>pv merge. validatePersisted cfg raw = Inr (Some pv)
                             \<and> (case hydrateConfig cfg of None \<Rightarrow> None | Some hc \<Rightarrow> hydrate_merge hc)
                                 = Some merge
                             \<and> merge (initialState cfg) pv = Inl e)))))"
    by (intro allI, rule hydrateEntire_try_throws)
  have c3: "(\<forall>sl n. (hydrateSlice_try cfg w sl n = Inl e) =
             (getItem w (resolveKey cfg Slice (Some (slice_key sl))) = Inl e
              \<or> (\<exists>raw. getItem w (resolveKey cfg Slice (Some (slice_key sl))) = Inr raw \<and> \<not> nullish raw
                    \<and> (validatePersisted cfg raw = Inl e
                       \<or> (\<exists>pv. validatePersisted cfg raw = Inr (Some pv)
                             \<and> slice_apply sl n pv = Inl e)))))"
    by (intro allI, rule hydrateSlice_try_throws [OF assms(1)])
  have c4: "(strategy cfg = StrategyEntire \<longrightarrow>
            hydrateEntire_try cfg w (resolveKey cfg Entire None) = Inl e \<longrightarrow>
            hydrateEntire cfg w s =
               (Inr (initialState cfg),
                s\<lparr>byKey := AList.update ''entire'' Error (byKey s),
                  errors := errors s @ [e],
                  reads := reads s @ [resolveKey cfg Entire None]\<rparr>)
           \<and> (setStateFault w (initialState cfg) = NoFault \<longrightarrow>
                ready (hydrate cfg w s) = Resolved
              \<and> state (hydrate cfg w s) = initialState cfg
              \<and> overall (hydrate cfg w s) = Error
              \<and> errors (hydrate cfg w s) = errors s @ [e]))"
    by (intro impI, rule entire_unit_error [OF assms])
  have c5: "(strategy cfg \<noteq> StrategyEntire \<longrightarrow>
            (\<forall>pre sl post.
               slices cfg = pre @ sl # post \<longrightarrow> slice_key sl \<notin> slice_key ` set post \<longrightarrow>
               hydrateSlice_try cfg w sl (fst (hydrateSlices_loop cfg w pre (initialState cfg) s))
                 = Inl e \<longrightarrow>
               fst (hydrateSlices cfg w s)
                  = Inr (fst (hydrateSlices_loop cfg w (pre @ post) (initialState cfg) s))
              \<and> map_of (byKey (snd (hydrateSlices cfg w s))) (slice_key sl) = Some Error
              \<and> (\<forall>k. k \<noteq> slice_key sl \<longrightarrow>
                    map_of (byKey (snd (hydrateSlices cfg w s))) k
                      = map_of (byKey (snd (hydrateSlices_loop cfg w (pre @ post) (initialState cfg) s))) k)
              \<and> e \<in> set (errors (snd (hydrateSlices cfg w s)))
              \<and> (setStateFault w (fst (hydrateSlices_loop cfg w (pre @ post) (initialState cfg) s)) = NoFault
                   \<longrightarrow> ready (hydrate cfg w s) = Resolved
                     \<and> state (hydrate cfg w s)
                         = fst (hydrateSlices_loop cfg w (pre @ post) (initialState cfg) s)
                     \<and> overall (hydrate cfg w s) = Error)))"
    by (intro impI allI, rule slice_unit_error [OF assms])
  show ?thesis
    by (intro conjI, rule c1, rule c2, rule c3, rule c4, rule c5)
qed

theorem unit_errors_contained_witness:
  "fst (hydrateSlices two_cfg (quiet two_backend) (projr (createNusmStore two_cfg)))
     = Inr (JObj [(''filter'', JStr ''done''), (''todos'', JArr [])])
   \<and> map_of (byKey (snd (hydrateSlices two_cfg (quiet two_backend)
                            (projr (createNusmStore two_cfg))))) ''todos'' = Some Error
   \<and> ready (hydrate two_cfg (quiet two_backend) (projr (createNusmStore two_cfg))) = Resolved"
proof -
  have h1: "adapter two_cfg = Some memoryAdapter" by (simp add: two_cfg_def)
  have h2: "shouldDiscardPersisted (hydrateConfig two_cfg) = Inr False"
    by (simp add: two_cfg_def shouldDiscardPersisted_def)
  have h3: "ready (projr (createNusmStore two_cfg)) = Unsettled"
    by (simp add: createNusmStore_def two_cfg_def truthy_str_def)
  have ns: "strategy two_cfg \<noteq> StrategyEntire" by (simp add: two_cfg_def)
  have sl: "slices two_cfg = [] @ field_slice ''todos'' # [field_slice ''filter'']"
    by (simp add: two_cfg_def)
  have ky: "slice_key (field_slice ''todos'') \<notin> slice_key ` set [field_slice ''filter'']"
    by (simp add: field_slice_def)
  have k1: "resolveKey two_cfg Slice (Some ''todos'') = ''nusm:two:slice:todos''"
    and k2: "resolveKey two_cfg Slice (Some ''filter'') = ''nusm:two:slice:filter''"
    by (simp_all add: resolveKey_def two_cfg_def truthy_str_def memoryAdapter_def
        defaultResolveKey_def)
  have i: "initialState two_cfg = JObj [(''filter'', JStr ''all''), (''todos'', JArr [])]"
    and hc: "hydrateConfig two_cfg = None"
    by (simp_all add: two_cfg_def)
  have thr: "hydrateSlice_try two_cfg (quiet two_backend) (field_slice ''todos'')
               (fst (hydrateSlices_loop two_cfg (quiet two_backend) [] (initialState two_cfg)
                      (projr (createNusmStore two_cfg))))
             = Inl (Exn ''getItem failed'')"
    by (simp add: hydrateSlice_try_def h1 field_slice_def k1 quiet_def two_backend_def)
  have rest: "fst (hydrateSlices_loop two_cfg (quiet two_backend) ([] @ [field_slice ''filter''])
                    (initialState two_cfg) (projr (createNusmStore two_cfg)))
              = JObj [(''filter'', JStr ''done''), (''todos'', JArr [])]"
    by (simp add: hydrateSlice_try_def h1 field_slice_def k2 quiet_def two_backend_def
        nullish_def validatePersisted_def set_field_def i hc)
  have nf: "setStateFault (quiet two_backend)
              (fst (hydrateSlices_loop two_cfg (quiet two_backend) ([] @ [field_slice ''filter''])
                    (initialState two_cfg) (projr (createNusmStore two_cfg)))) = NoFault"
    by (simp add: quiet_def)
  note t = unit_errors_contained [OF h1 h2 h3, THEN conjunct2, THEN conjunct2, THEN conjunct2,
      THEN conjunct2, rule_format, OF ns sl ky thr]
  have c1: "fst (hydrateSlices two_cfg (quiet two_backend) (projr (createNusmStore two_cfg)))
     = Inr (JObj [(''filter'', JStr ''done''), (''todos'', JArr [])])"
    using t [THEN conjunct1] rest by simp
  have c2: "map_of (byKey (snd (hydrateSlices two_cfg (quiet two_backend)
                            (projr (createNusmStore two_cfg))))) ''todos'' = Some Error"
    using t [THEN conjunct2, THEN conjunct1] by (simp add: field_slice_def)
  have c3: "ready (hydrate two_cfg (quiet two_backend) (projr (createNusmStore two_cfg))) = Resolved"
    using t [THEN conjunct2, THEN conjunct2, THEN conjunct2, THEN conjunct2] nf by simp
  show ?thesis
    by (intro conjI, rule c1, rule c2, rule c3)
qed

text \<open>
  Claim C6 (amended). When applying the hydrated state to the container throws, the
  exception is reported to the error sink, the overall status is \<open>error\<close> and the ready
  promise is rejected with that exception. The Readiness Signal is rejected in exactly two
  cases: when applying the state throws, and when the discard predicate throws (it is
  evaluated outside the per-unit handling); in every other case it is resolved.
\<close>

theorem fatal_paths:
  assumes "adapter cfg = Some a" and "ready s = Unsettled"
    and "(if strategy cfg = StrategyEntire then hydrateEntire cfg w s
          else hydrateSlices cfg w s) = (r, s1)"
  shows "(\<forall>v e. r = Inr v \<longrightarrow> fst (applyState cfg w v s1) = Some e \<longrightarrow>
            ready (hydrate cfg w s) = Rejected e
          \<and> errors (hydrate cfg w s) = errors s1 @ [e]
          \<and> overall (hydrate cfg w s) = Error)
       \<and> (\<forall>e. (ready (hydrate cfg w s) = Rejected e) =
            ((\<exists>v. r = Inr v \<and> fst (applyState cfg w v s1) = Some e)
             \<or> shouldDiscardPersisted (hydrateConfig cfg) = Inl e))
       \<and> ((ready (hydrate cfg w s) = Resolved) =
            (\<exists>v. r = Inr v \<and> fst (applyState cfg w v s1) = None))"
proof -
  have u: "untouched s1 = untouched s"
    using strategy_untouched [of cfg w s] assms(3) by simp
  then have rs1: "ready s1 = Unsettled"
    using assms(2) by (simp add: untouched_def)
  note h = hydrate_adapter [OF assms(1,3)]
  note t = strategy_throws [OF assms(1,3)]
  show ?thesis
  proof (cases r)
    case (Inl x)
    have d: "shouldDiscardPersisted (hydrateConfig cfg) = Inl x"
      using t [of x] Inl by simp
    show ?thesis
      using Inl d rs1 by (auto simp: h hydrate_catch_def settle_def)
  next
    case (Inr v)
    have d: "\<And>e. shouldDiscardPersisted (hydrateConfig cfg) \<noteq> Inl e"
      using t Inr by simp
    show ?thesis
      using Inr d rs1
      by (cases "setStateFault w v")
        (auto simp: h hydrate_catch_def settle_def applyState_cases finalizeHydration_def)
  qed
qed

theorem fatal_paths_witness:
  "ready (hydrate reject_cfg reject_world reject_buffered) = Rejected (Exn ''applyState failed'')
   \<and> errors (hydrate reject_cfg reject_world reject_buffered) = [Exn ''applyState failed'']
   \<and> overall (hydrate reject_cfg reject_world reject_buffered) = Error"
proof -
  have h1: "adapter reject_cfg = Some memoryAdapter" by (simp add: reject_cfg_def)
  have h2: "ready reject_buffered = Unsettled"
    by (simp add: reject_buffered_def adapterListener_def createNusmStore_def reject_cfg_def
        truthy_str_def)
  have h3: "(if strategy reject_cfg = StrategyEntire
             then hydrateEntire reject_cfg reject_world reject_buffered
             else hydrateSlices reject_cfg reject_world reject_buffered)
           = (Inr (JObj [(''value'', JNum 2)]),
              reject_buffered\<lparr>byKey := AList.update ''entire'' Hydrated (byKey reject_buffered),
                 reads := reads reject_buffered @ [resolveKey reject_cfg Entire None]\<rparr>)"
    by (simp add: hydrateEntire_def hydrateEntire_try_def validatePersisted_def
        reject_cfg_def reject_world_def truthy_str_def memoryAdapter_def resolveKey_def
        defaultResolveKey_def shouldDiscardPersisted_def nullish_def)
  have f: "fst (applyState reject_cfg reject_world (JObj [(''value'', JNum 2)])
             (reject_buffered\<lparr>byKey := AList.update ''entire'' Hydrated (byKey reject_buffered),
                 reads := reads reject_buffered @ [resolveKey reject_cfg Entire None]\<rparr>))
           = Some (Exn ''applyState failed'')"
    by (simp add: applyState_cases reject_world_def)
  have e: "errors reject_buffered = []"
    by (simp add: reject_buffered_def adapterListener_def createNusmStore_def reject_cfg_def
        truthy_str_def)
  show ?thesis
    using fatal_paths [OF h1 h2 h3, THEN conjunct1, rule_format, OF refl f] e
    by simp
qed

text \<open>
  Claim C6 as stated fails where the discard predicate throws: the Readiness Signal is
  rejected although applying a state does not throw, and no state has been applied.
\<close>

theorem discard_throws_counterexample:
  "ready (hydrate discard_cfg (quiet (\<lambda>k. Inr JNull)) (projr (createNusmStore discard_cfg)))
     = Rejected (Exn ''discard failed'')
   \<and> fst (applyState discard_cfg (quiet (\<lambda>k. Inr JNull)) (initialState discard_cfg)
           (projr (createNusmStore discard_cfg))) = None
   \<and> state (hydrate discard_cfg (quiet (\<lambda>k. Inr JNull)) (projr (createNusmStore discard_cfg)))
     = JUndefined"
  by (simp add: hydrate_def hydrateEntire_def discard_cfg_def shouldDiscardPersisted_def
      createNusmStore_def truthy_str_def hydrate_catch_def settle_def applyState_cases quiet_def)

text \<open>
  Claim C7 (amended). A validation function that returns the boolean \<open>true\<close> accepts the raw
  persisted value as it is, and \<open>false\<close> rejects it; a structured result with \<open>ok\<close> false
  rejects it; a rejection marks the unit \<open>discarded\<close> and keeps the initial value (the running
  state, for a slice). A structured result with \<open>ok\<close> true and a \<open>value\<close> that is neither
  \<open>null\<close> nor \<open>undefined\<close> substitutes that value for the raw one in the merge and in the
  slice's reducer; with \<open>value\<close> absent, \<open>null\<close> or \<open>undefined\<close> the raw value is used.
\<close>

theorem validation_outcomes:
  assumes "hydrateConfig cfg = Some hc" and "hydrate_validate hc = Some validate"
    and "validate raw = Inr r" and "\<not> nullish raw"
    and "adapter cfg = Some a" and "shouldDiscardPersisted (hydrateConfig cfg) = Inr False"
  shows "(r = VBool True \<longrightarrow> validatePersisted cfg raw = Inr (Some raw))
       \<and> (r = VBool False \<longrightarrow> validatePersisted cfg raw = Inr None)
       \<and> (\<forall>v. r = VResult False v \<longrightarrow> validatePersisted cfg raw = Inr None)
       \<and> (\<forall>x. r = VResult True (Some x) \<longrightarrow> \<not> nullish x \<longrightarrow>
              validatePersisted cfg raw = Inr (Some x))
       \<and> (\<forall>x. r = VResult True (Some x) \<longrightarrow> nullish x \<longrightarrow>
              validatePersisted cfg raw = Inr (Some raw))
       \<and> (r = VResult True None \<longrightarrow> validatePersisted cfg raw = Inr (Some raw))
       \<and> (validatePersisted cfg raw = Inr None \<longrightarrow>
            (\<forall>w s. getItem w (resolveKey cfg Entire None) = Inr raw \<longrightarrow>
               hydrateEntire cfg w s =
                 (Inr (initialState cfg),
                  s\<lparr>byKey := AList.update ''entire'' Discarded (byKey s),
                    reads := reads s @ [resolveKey cfg Entire None]\<rparr>))
          \<and> (\<forall>w sl rest nextState s.
               getItem w (resolveKey cfg Slice (Some (slice_key sl))) = Inr raw \<longrightarrow>
               hydrateSlices_loop cfg w (sl # rest) nextState s =
                 hydrateSlices_loop cfg w rest nextState
                   (log_read cfg (resolveKey cfg Slice (Some (slice_key sl)))
                      (s\<lparr>byKey := AList.update (slice_key sl) Discarded (byKey s)\<rparr>))))
       \<and> (\<forall>x. validatePersisted cfg raw = Inr (Some x) \<longrightarrow>
            (\<forall>w. getItem w (resolveKey cfg Entire None) = Inr raw \<longrightarrow>
               hydrateEntire_try cfg w (resolveKey cfg Entire None) =
                 (case hydrate_merge hc of
                    Some merge \<Rightarrow> (case merge (initialState cfg) x of
                                     Inl e \<Rightarrow> Inl e | Inr merged \<Rightarrow> Inr (Hydrated, merged))
                  | None \<Rightarrow> Inr (Hydrated, deepMerge (initialState cfg) x)))
          \<and> (\<forall>w sl nextState.
               getItem w (resolveKey cfg Slice (Some (slice_key sl))) = Inr raw \<longrightarrow>
               hydrateSlice_try cfg w sl nextState =
                 (case slice_apply sl nextState x of
                    Inl e \<Rightarrow> Inl e | Inr next \<Rightarrow> Inr (Hydrated, next))))"
proof -
  have vp: "validatePersisted cfg raw =
      (if \<not> fst (resolveValidateResult r raw) then Inr None
       else Inr (Some (snd (resolveValidateResult r raw))))"
    using assms(1-3) by (simp add: validatePersisted_def)
  have c1: "r = VBool True \<longrightarrow> validatePersisted cfg raw = Inr (Some raw)"
    by (simp add: vp resolveValidateResult_def)
  have c2: "r = VBool False \<longrightarrow> validatePersisted cfg raw = Inr None"
    by (simp add: vp resolveValidateResult_def)
  have c3: "\<forall>v. r = VResult False v \<longrightarrow> validatePersisted cfg raw = Inr None"
    by (simp add: vp resolveValidateResult_def)
  have c4: "\<forall>x. r = VResult True (Some x) \<longrightarrow> \<not> nullish x \<longrightarrow>
              validatePersisted cfg raw = Inr (Some x)"
    by (simp add: vp resolveValidateResult_def)
  have c5: "\<forall>x. r = VResult True (Some x) \<longrightarrow> nullish x \<longrightarrow>
              validatePersisted cfg raw = Inr (Some raw)"
    by (simp add: vp resolveValidateResult_def)
  have c6: "r = VResult True None \<longrightarrow> validatePersisted cfg raw = Inr (Some raw)"
    by (simp add: vp resolveValidateResult_def)
  have c7: "validatePersisted cfg raw = Inr None \<longrightarrow>
            (\<forall>w s. getItem w (resolveKey cfg Entire None) = Inr raw \<longrightarrow>
               hydrateEntire cfg w s =
                 (Inr (initialState cfg),
                  s\<lparr>byKey := AList.update ''entire'' Discarded (byKey s),
                    reads := reads s @ [resolveKey cfg Entire None]\<rparr>))
          \<and> (\<forall>w sl rest nextState s.
               getItem w (resolveKey cfg Slice (Some (slice_key sl))) = Inr raw \<longrightarrow>
               hydrateSlices_loop cfg w (sl # rest) nextState s =
                 hydrateSlices_loop cfg w rest nextState
                   (log_read cfg (resolveKey cfg Slice (Some (slice_key sl)))
                      (s\<lparr>byKey := AList.update (slice_key sl) Discarded (byKey s)\<rparr>)))"
    using assms(4,5,6)
    by (simp add: hydrateEntire_def hydrateEntire_try_def hydrateSlice_try_def)
  have c8: "\<forall>x. validatePersisted cfg raw = Inr (Some x) \<longrightarrow>
            (\<forall>w. getItem w (resolveKey cfg Entire None) = Inr raw \<longrightarrow>
               hydrateEntire_try cfg w (resolveKey cfg Entire None) =
                 (case hydrate_merge hc of
                    Some merge \<Rightarrow> (case merge (initialState cfg) x of
                                     Inl e \<Rightarrow> Inl e | Inr merged \<Rightarrow> Inr (Hydrated, merged))
                  | None \<Rightarrow> Inr (Hydrated, deepMerge (initialState cfg) x)))
          \<and> (\<forall>w sl nextState.
               getItem w (resolveKey cfg Slice (Some (slice_key sl))) = Inr raw \<longrightarrow>
               hydrateSlice_try cfg w sl nextState =
                 (case slice_apply sl nextState x of
                    Inl e \<Rightarrow> Inl e | Inr next \<Rightarrow> Inr (Hydrated, next)))"
    using assms(1,4,5)
    by (simp add: hydrateEntire_try_def hydrateSlice_try_def split: option.splits sum.splits)
  show ?thesis
    by (intro conjI, rule c1, rule c2, rule c3, rule c4, rule c5, rule c6, rule c7, rule c8)
qed

theorem validation_outcomes_witness:
  "validatePersisted validating_cfg (JObj [(''value'', JNum (- 1))])
     = Inr (Some (JObj [(''value'', JNum 5)]))
   \<and> hydrateEntire_try validating_cfg
         (quiet (validating_backend (JObj [(''value'', JNum (- 1))])))
         (resolveKey validating_cfg Entire None)
     = Inr (Hydrated, JObj [(''value'', JNum 5)])"
proof -
  have h1: "hydrateConfig validating_cfg = Some (the (hydrateConfig validating_cfg))"
    by (simp add: validating_cfg_def)
  have h2: "hydrate_validate (the (hydrateConfig validating_cfg))
      = Some (\<lambda>persisted.
          if persisted = JObj [(''value'', JNum (- 1))]
          then Inr (VResult True (Some (JObj [(''value'', JNum 5)])))
          else Inr (VResult True (Some JNull)))"
    by (simp add: validating_cfg_def)
  have h3: "(\<lambda>persisted.
          if persisted = JObj [(''value'', JNum (- 1))]
          then Inr (VResult True (Some (JObj [(''value'', JNum 5)])))
          else Inr (VResult True (Some JNull))) (JObj [(''value'', JNum (- 1))])
      = (Inr (VResult True (Some (JObj [(''value'', JNum 5)]))) :: exn + validateResult)"
    by simp
  have h4: "\<not> nullish (JObj [(''value'', JNum (- 1))])"
    by (simp add: nullish_def)
  have h5: "adapter validating_cfg = Some memoryAdapter"
    by (simp add: validating_cfg_def)
  have h6: "shouldDiscardPersisted (hydrateConfig validating_cfg) = Inr False"
    by (simp add: validating_cfg_def shouldDiscardPersisted_def)
  have g: "getItem (quiet (validating_backend (JObj [(''value'', JNum (- 1))])))
             (resolveKey validating_cfg Entire None) = Inr (JObj [(''value'', JNum (- 1))])"
    by (simp add: quiet_def validating_backend_def resolveKey_def validating_cfg_def
        truthy_str_def memoryAdapter_def defaultResolveKey_def)
  have n: "\<not> nullish (JObj [(''value'', JNum 5)])"
    by (simp add: nullish_def)
  show ?thesis
    using validation_outcomes [OF h1 h2 h3 h4 h5 h6] g n
    by (simp add: validating_cfg_def)
qed

text \<open>
  Claim C7 as stated fails where the validation function returns \<open>{ok: true, value: null}\<close>:
  the field is present, and the raw persisted value is used all the same.
\<close>

theorem null_value_counterexample:
  "resolveValidateResult (VResult True (Some JNull)) (JObj [(''value'', JNum 3)])
     = (True, JObj [(''value'', JNum 3)])
   \<and> state (hydrate validating_cfg (quiet (validating_backend (JObj [(''value'', JNum 3)])))
              (projr (createNusmStore validating_cfg)))
       = JObj [(''value'', JNum 3)]
   \<and> deepMerge (initialState validating_cfg) JNull \<noteq> JObj [(''value'', JNum 3)]"
  by (simp add: resolveValidateResult_def nullish_def hydrate_def hydrateEntire_def
      hydrateEntire_try_def validatePersisted_def validating_cfg_def quiet_def
      validating_backend_def resolveKey_def truthy_str_def memoryAdapter_def
      defaultResolveKey_def shouldDiscardPersisted_def createNusmStore_def initial_byKey_def
      applyState_cases finalizeHydration_def settle_def)

text \<open>
  Claim C8. An assignment made through \<open>applyState\<close> or \<open>applyExternalState\<close> creates no
  entry in the pending write queue and triggers no flush, under every strategy, and so do
  hydration and the handling of an adapter event as wholes: the subscriber returns at once
  while the flag is set. A change that is not marked (the caller's own \<open>setState\<close>, here
  under the entire strategy) is enqueued and a flush is triggered.
\<close>

theorem self_originated_changes_not_scheduled:
  "scheduled (snd (applyState cfg w v s)) = scheduled s
   \<and> scheduled (snd (applyExternalState cfg w v s)) = scheduled s
   \<and> scheduled (hydrate cfg w s) = scheduled s
   \<and> scheduled (snd (handleAdapterEvent cfg w ev s)) = scheduled s
   \<and> (suppressPersist s \<longrightarrow> subscriber cfg w prevVal v s = (None, s))
   \<and> (adapter cfg \<noteq> None \<longrightarrow> strategy cfg = StrategyEntire \<longrightarrow> \<not> suppressPersist s \<longrightarrow>
        (\<forall>e. setStateFault w v \<noteq> ThrowBeforeAssign e) \<longrightarrow>
          snd (setState cfg w v s)
            = enqueuePersist cfg (Entry (resolveKey cfg Entire None) v None Entire) (s\<lparr>state := v\<rparr>)
          \<and> scheduled (snd (setState cfg w v s)) \<noteq> scheduled s)"
proof -
  have c6: "adapter cfg \<noteq> None \<longrightarrow> strategy cfg = StrategyEntire \<longrightarrow> \<not> suppressPersist s \<longrightarrow>
        (\<forall>e. setStateFault w v \<noteq> ThrowBeforeAssign e) \<longrightarrow>
          snd (setState cfg w v s)
            = enqueuePersist cfg (Entry (resolveKey cfg Entire None) v None Entire) (s\<lparr>state := v\<rparr>)
          \<and> scheduled (snd (setState cfg w v s)) \<noteq> scheduled s"
  proof (intro impI)
    assume a: "adapter cfg \<noteq> None" and e: "strategy cfg = StrategyEntire"
      and n: "\<not> suppressPersist s" and f: "\<forall>e. setStateFault w v \<noteq> ThrowBeforeAssign e"
    have eq: "snd (setState cfg w v s)
            = enqueuePersist cfg (Entry (resolveKey cfg Entire None) v None Entire) (s\<lparr>state := v\<rparr>)"
      using a e n f by (cases "setStateFault w v") (auto simp: setState_def subscriber_def)
    have "scheduled (enqueuePersist cfg (Entry (resolveKey cfg Entire None) v None Entire)
                       (s\<lparr>state := v\<rparr>)) \<noteq> scheduled (s\<lparr>state := v\<rparr>)"
      by (rule enqueuePersist_scheduled [OF a])
    then have "scheduled (snd (setState cfg w v s)) \<noteq> scheduled s"
      by (simp add: eq scheduled_def)
    with eq show "snd (setState cfg w v s)
            = enqueuePersist cfg (Entry (resolveKey cfg Entire None) v None Entire) (s\<lparr>state := v\<rparr>)
          \<and> scheduled (snd (setState cfg w v s)) \<noteq> scheduled s"
      by (rule conjI)
  qed
  have c5: "suppressPersist s \<longrightarrow> subscriber cfg w prevVal v s = (None, s)"
    by (simp add: subscriber_suppressed)
  show ?thesis
    by (intro conjI, rule applyState_scheduled, rule applyExternalState_scheduled,
        rule hydrate_scheduled, rule handleAdapterEvent_scheduled, rule c5, rule c6)
qed

theorem self_originated_changes_not_scheduled_witness:
  "scheduled (snd (setState merge_cfg (quiet merge_backend) (JObj [(''a'', JNum 2)]) merge_live))
     = ([(''nusm:merge:entire'', Entry ''nusm:merge:entire'' (JObj [(''a'', JNum 2)]) None Entire)],
        [], 1)
   \<and> scheduled (snd (applyState merge_cfg (quiet merge_backend) (JObj [(''a'', JNum 2)]) merge_live))
     = ([], [], 0)
   \<and> subscriber merge_cfg (quiet merge_backend) (JObj [(''a'', JNum 42)]) (JObj [(''a'', JNum 2)])
        (merge_live\<lparr>suppressPersist := True\<rparr>) = (None, merge_live\<lparr>suppressPersist := True\<rparr>)"
proof -
  have h1: "adapter merge_cfg \<noteq> None" by (simp add: merge_cfg_def)
  have h2: "strategy merge_cfg = StrategyEntire" by (simp add: merge_cfg_def)
  have h3: "\<not> suppressPersist merge_live" by (simp add: merge_live_def createNusmStore_def merge_cfg_def truthy_str_def)
  have h4: "\<forall>e. setStateFault (quiet merge_backend) (JObj [(''a'', JNum 2)]) \<noteq> ThrowBeforeAssign e"
    by (simp add: quiet_def)
  have h5: "suppressPersist (merge_live\<lparr>suppressPersist := True\<rparr>)" by simp
  have q: "scheduled merge_live = ([], [], 0)"
    by (simp add: scheduled_def merge_live_def createNusmStore_def merge_cfg_def truthy_str_def)
  have k: "resolveKey merge_cfg Entire None = ''nusm:merge:entire''"
    by (simp add: resolveKey_def merge_cfg_def truthy_str_def memoryAdapter_def defaultResolveKey_def)
  have p: "pacer memoryAdapter = None" by (simp add: memoryAdapter_def)
  have a: "adapter merge_cfg = Some memoryAdapter" by (simp add: merge_cfg_def)
  note t = self_originated_changes_not_scheduled
      [of merge_cfg "quiet merge_backend" "JObj [(''a'', JNum 2)]" merge_live]
  note t' = self_originated_changes_not_scheduled
      [of merge_cfg "quiet merge_backend" "JObj [(''a'', JNum 2)]"
          "merge_live\<lparr>suppressPersist := True\<rparr>" _ "JObj [(''a'', JNum 42)]"]
  have c1: "scheduled (snd (setState merge_cfg (quiet merge_backend) (JObj [(''a'', JNum 2)]) merge_live))
     = ([(''nusm:merge:entire'', Entry ''nusm:merge:entire'' (JObj [(''a'', JNum 2)]) None Entire)],
        [], 1)"
    using t h1 h2 h3 h4 q k p a
    by (simp add: enqueuePersist_def scheduleFlush_def scheduled_def)
  have c2: "scheduled (snd (applyState merge_cfg (quiet merge_backend) (JObj [(''a'', JNum 2)]) merge_live))
     = ([], [], 0)"
    using t q by simp
  have c3: "subscriber merge_cfg (quiet merge_backend) (JObj [(''a'', JNum 42)]) (JObj [(''a'', JNum 2)])
        (merge_live\<lparr>suppressPersist := True\<rparr>) = (None, merge_live\<lparr>suppressPersist := True\<rparr>)"
    using t' h5 by simp
  show ?thesis
    by (intro conjI, rule c1, rule c2, rule c3)
qed

text \<open>
  Claim C9 (amended). With an adapter the container is created holding \<open>undefined\<close>, and
  it holds \<open>undefined\<close> until \<open>applyState\<close> assigns the hydrated state in \<open>hydrate\<close>: the
  adapter events that arrive before are buffered, and reading and merging the units assigns
  nothing. When hydration fails without assigning, the container still holds \<open>undefined\<close>
  at the end of \<open>hydrate\<close>, and from then on its state is what the replay of the events
  buffered before makes of it: unchanged when there are none, and the initial state after a
  buffered \<open>clear\<close> under the entire strategy. Later events are only buffered. Without an
  adapter the container holds the initial state from construction onward. (The caller's
  own assignments are not steps of the engine.)
\<close>

theorem container_until_hydration:
  assumes "createNusmStore cfg = Inr s0"
  shows "(adapter cfg \<noteq> None \<longrightarrow>
            state s0 = JUndefined
          \<and> (\<forall>evs. state (deliver cfg evs s0) = JUndefined)
          \<and> (\<forall>evs w r s1.
                (if strategy cfg = StrategyEntire then hydrateEntire cfg w (deliver cfg evs s0)
                 else hydrateSlices cfg w (deliver cfg evs s0)) = (r, s1) \<longrightarrow>
                state (hydrate cfg w (deliver cfg evs s0)) =
                  (case r of
                     Inl e \<Rightarrow> JUndefined
                   | Inr v \<Rightarrow> (case setStateFault w v of
                                 ThrowBeforeAssign e \<Rightarrow> JUndefined
                               | _ \<Rightarrow> v)))
          \<and> (\<forall>evs w w' evs' e.
                ready (hydrate cfg w (deliver cfg evs s0)) = Rejected e \<longrightarrow>
                state (deliver cfg evs' (hydrate_then_replay cfg w w' (deliver cfg evs s0)))
                  = state (snd (replay_loop cfg w' (map snd evs)
                      ((hydrate cfg w (deliver cfg evs s0))\<lparr>pendingAdapterEvents := []\<rparr>))))
          \<and> (\<forall>w w' evs' e.
                ready (hydrate cfg w s0) = Rejected e \<longrightarrow>
                state (deliver cfg evs' (hydrate_then_replay cfg w w' s0))
                  = state (hydrate cfg w s0))
          \<and> (\<forall>wc w w' e.
                strategy cfg = StrategyEntire \<longrightarrow>
                ready (hydrate cfg w (deliver cfg [(wc, AdapterEvent EvClear None)] s0))
                  = Rejected e \<longrightarrow>
                setStateFault w' (initialState cfg) = NoFault \<longrightarrow>
                state (hydrate_then_replay cfg w w'
                         (deliver cfg [(wc, AdapterEvent EvClear None)] s0))
                  = initialState cfg))
       \<and> (adapter cfg = None \<longrightarrow>
            state s0 = initialState cfg
          \<and> (\<forall>evs w evs'.
                state (deliver cfg evs' (hydrate cfg w (deliver cfg evs s0))) = initialState cfg))"
proof -
  have s0: "state s0 = (if adapter cfg \<noteq> None then JUndefined else initialState cfg)"
    and nr: "\<not> isReady s0"
    using assms by (auto simp: createNusmStore_def split: if_splits)
  have pre: "\<And>evs. state (deliver cfg evs s0) = state s0"
    by (simp add: deliver_not_ready [OF nr])
  have p0: "pendingAdapterEvents s0 = []" and r0: "ready s0 = Unsettled"
    using assms by (auto simp: createNusmStore_def split: if_splits)
  have after_failure:
    "state (deliver cfg evs' (hydrate_then_replay cfg w w' (deliver cfg evs s0)))
       = state (snd (replay_loop cfg w' (map snd evs)
           ((hydrate cfg w (deliver cfg evs s0))\<lparr>pendingAdapterEvents := []\<rparr>)))"
    if rej: "ready (hydrate cfg w (deliver cfg evs s0)) = Rejected e" for evs evs' w w' e
  proof -
    let ?d = "deliver cfg evs s0"
    let ?h = "hydrate cfg w ?d"
    have d: "?d = s0\<lparr>pendingAdapterEvents := map snd evs\<rparr>"
      using deliver_not_ready [OF nr, of cfg evs] p0 by simp
    have rd: "ready ?d = Unsettled" using d r0 by simp
    have nd: "\<not> isReady ?d" using d nr by simp
    note hr = hydrate_rejected [OF rd rej]
    have nh: "\<not> isReady ?h" using hr(1) nd by simp
    have ph: "pendingAdapterEvents ?h = map snd evs" using hr(2) d by simp
    have rp: "state (snd (replay cfg w' ?h))
                = state (snd (replay_loop cfg w' (map snd evs) (?h\<lparr>pendingAdapterEvents := []\<rparr>)))"
      by (auto simp: replay_def ph)
    have "\<not> isReady (hydrate_then_replay cfg w w' ?d)"
      using nh by (simp add: hydrate_then_replay_def replay_isReady)
    then have "state (deliver cfg evs' (hydrate_then_replay cfg w w' ?d))
                 = state (hydrate_then_replay cfg w w' ?d)"
      by (simp add: deliver_not_ready)
    then show ?thesis
      using rp by (simp add: hydrate_then_replay_def)
  qed
  have with_adapter: "adapter cfg \<noteq> None \<longrightarrow>
            state s0 = JUndefined
          \<and> (\<forall>evs. state (deliver cfg evs s0) = JUndefined)
          \<and> (\<forall>evs w r s1.
                (if strategy cfg = StrategyEntire then hydrateEntire cfg w (deliver cfg evs s0)
                 else hydrateSlices cfg w (deliver cfg evs s0)) = (r, s1) \<longrightarrow>
                state (hydrate cfg w (deliver cfg evs s0)) =
                  (case r of
                     Inl e \<Rightarrow> JUndefined
                   | Inr v \<Rightarrow> (case setStateFault w v of
                                 ThrowBeforeAssign e \<Rightarrow> JUndefined
                               | _ \<Rightarrow> v)))
          \<and> (\<forall>evs w w' evs' e.
                ready (hydrate cfg w (deliver cfg evs s0)) = Rejected e \<longrightarrow>
                state (deliver cfg evs' (hydrate_then_replay cfg w w' (deliver cfg evs s0)))
                  = state (snd (replay_loop cfg w' (map snd evs)
                      ((hydrate cfg w (deliver cfg evs s0))\<lparr>pendingAdapterEvents := []\<rparr>))))
          \<and> (\<forall>w w' evs' e.
                ready (hydrate cfg w s0) = Rejected e \<longrightarrow>
                state (deliver cfg evs' (hydrate_then_replay cfg w w' s0))
                  = state (hydrate cfg w s0))
          \<and> (\<forall>wc w w' e.
                strategy cfg = StrategyEntire \<longrightarrow>
                ready (hydrate cfg w (deliver cfg [(wc, AdapterEvent EvClear None)] s0))
                  = Rejected e \<longrightarrow>
                setStateFault w' (initialState cfg) = NoFault \<longrightarrow>
                state (hydrate_then_replay cfg w w'
                         (deliver cfg [(wc, AdapterEvent EvClear None)] s0))
                  = initialState cfg)"
  proof (intro impI conjI allI)
    assume a: "adapter cfg \<noteq> None"
    show u: "state s0 = JUndefined" using s0 a by simp
    show "state (deliver cfg evs s0) = JUndefined" for evs
      using pre u by simp
    fix evs w r s1
    assume h: "(if strategy cfg = StrategyEntire then hydrateEntire cfg w (deliver cfg evs s0)
                 else hydrateSlices cfg w (deliver cfg evs s0)) = (r, s1)"
    obtain ad where ad: "adapter cfg = Some ad" using a by blast
    have "untouched s1 = untouched (deliver cfg evs s0)"
      using strategy_untouched [of cfg w "deliver cfg evs s0"] h by simp
    then have s1: "state s1 = JUndefined"
      using pre u by (simp add: untouched_def)
    show "state (hydrate cfg w (deliver cfg evs s0)) =
                  (case r of
                     Inl e \<Rightarrow> JUndefined
                   | Inr v \<Rightarrow> (case setStateFault w v of
                                 ThrowBeforeAssign e \<Rightarrow> JUndefined
                               | _ \<Rightarrow> v))"
      using s1 by (simp add: hydrate_adapter [OF ad h] split: sum.split fault.split)
  next
    fix evs w w' evs' e
    assume rej: "ready (hydrate cfg w (deliver cfg evs s0)) = Rejected e"
    show "state (deliver cfg evs' (hydrate_then_replay cfg w w' (deliver cfg evs s0)))
            = state (snd (replay_loop cfg w' (map snd evs)
                ((hydrate cfg w (deliver cfg evs s0))\<lparr>pendingAdapterEvents := []\<rparr>)))"
      by (rule after_failure [OF rej])
  next
    fix w w' evs' e
    assume rej: "ready (hydrate cfg w s0) = Rejected e"
    have "ready (hydrate cfg w (deliver cfg [] s0)) = Rejected e" using rej by simp
    from after_failure [OF this, of evs' w'] 
    show "state (deliver cfg evs' (hydrate_then_replay cfg w w' s0)) = state (hydrate cfg w s0)"
      by simp
  next
    fix wc w and w' :: world and e
    assume a: "adapter cfg \<noteq> None" and en: "strategy cfg = StrategyEntire"
      and rej: "ready (hydrate cfg w (deliver cfg [(wc, AdapterEvent EvClear None)] s0))
                  = Rejected e"
      and nf: "setStateFault w' (initialState cfg) = NoFault"
    obtain ad where ad: "adapter cfg = Some ad" using a by blast
    have "state (deliver cfg [] (hydrate_then_replay cfg w w'
                   (deliver cfg [(wc, AdapterEvent EvClear None)] s0)))
            = state (snd (replay_loop cfg w' (map snd [(wc, AdapterEvent EvClear None)])
                ((hydrate cfg w (deliver cfg [(wc, AdapterEvent EvClear None)] s0))
                   \<lparr>pendingAdapterEvents := []\<rparr>)))"
      by (rule after_failure [OF rej])
    then show "state (hydrate_then_replay cfg w w'
                         (deliver cfg [(wc, AdapterEvent EvClear None)] s0))
                  = initialState cfg"
      using en nf by (simp add: handle_clear [OF ad] applyExternalState_cases)
  qed
  have without_adapter: "adapter cfg = None \<longrightarrow>
            state s0 = initialState cfg
          \<and> (\<forall>evs w evs'.
                state (deliver cfg evs' (hydrate cfg w (deliver cfg evs s0))) = initialState cfg)"
  proof (intro impI conjI allI)
    assume a: "adapter cfg = None"
    show u: "state s0 = initialState cfg" using s0 a by simp
    fix evs w evs'
    have "state (hydrate cfg w (deliver cfg evs s0)) = initialState cfg"
      using a pre u by (simp add: hydrate_def)
    then show "state (deliver cfg evs' (hydrate cfg w (deliver cfg evs s0))) = initialState cfg"
      by (simp add: deliver_no_adapter [OF a])
  qed
  show ?thesis
    by (intro conjI, rule with_adapter, rule without_adapter)
qed

theorem container_until_hydration_witness:
  "state (projr (createNusmStore merge_cfg)) = JUndefined
   \<and> state (deliver merge_cfg [(quiet merge_backend, AdapterEvent EvClear None)]
              (projr (createNusmStore merge_cfg))) = JUndefined
   \<and> state (projr (createNusmStore plain_cfg)) = JObj [(''count'', JNum 0)]
   \<and> state (hydrate_then_replay reject_cfg reject_world reject_world reject_buffered)
       = JObj [(''value'', JNum 1)]"
proof -
  have h1: "createNusmStore merge_cfg = Inr (projr (createNusmStore merge_cfg))"
    by (simp add: createNusmStore_def merge_cfg_def truthy_str_def)
  have h2: "createNusmStore plain_cfg = Inr (projr (createNusmStore plain_cfg))"
    by (simp add: createNusmStore_def plain_cfg_def)
  have h3: "createNusmStore reject_cfg = Inr (projr (createNusmStore reject_cfg))"
    by (simp add: createNusmStore_def reject_cfg_def truthy_str_def)
  have a1: "adapter merge_cfg \<noteq> None" by (simp add: merge_cfg_def)
  have a2: "adapter plain_cfg = None" by (simp add: plain_cfg_def)
  have a3: "adapter reject_cfg \<noteq> None" by (simp add: reject_cfg_def)
  have i: "initialState plain_cfg = JObj [(''count'', JNum 0)]" by (simp add: plain_cfg_def)
  have c1: "state (projr (createNusmStore merge_cfg)) = JUndefined"
    by (rule container_until_hydration [OF h1, THEN conjunct1, rule_format, OF a1,
          THEN conjunct1])
  have c2: "state (deliver merge_cfg [(quiet merge_backend, AdapterEvent EvClear None)]
              (projr (createNusmStore merge_cfg))) = JUndefined"
    by (rule container_until_hydration [OF h1, THEN conjunct1, rule_format, OF a1,
          THEN conjunct2, THEN conjunct1, rule_format])
  have c3: "state (projr (createNusmStore plain_cfg)) = JObj [(''count'', JNum 0)]"
    using container_until_hydration [OF h2] a2 i by simp
  have en: "strategy reject_cfg = StrategyEntire" by (simp add: reject_cfg_def)
  have rej: "ready (hydrate reject_cfg reject_world
               (deliver reject_cfg [(reject_world, AdapterEvent EvClear None)]
                  (projr (createNusmStore reject_cfg)))) = Rejected (Exn ''applyState failed'')"
    using reject_hydrate by (simp add: reject_buffered_def)
  have nf: "setStateFault reject_world (initialState reject_cfg) = NoFault"
    by (simp add: reject_world_def reject_cfg_def)
  have "state (hydrate_then_replay reject_cfg reject_world reject_world
                 (deliver reject_cfg [(reject_world, AdapterEvent EvClear None)]
                    (projr (createNusmStore reject_cfg)))) = initialState reject_cfg"
    by (rule container_until_hydration [OF h3, THEN conjunct1, rule_format, OF a3,
          THEN conjunct2, THEN conjunct2, THEN conjunct2, THEN conjunct2, THEN conjunct2,
          rule_format, OF en rej nf])
  then have c4: "state (hydrate_then_replay reject_cfg reject_world reject_world reject_buffered)
       = JObj [(''value'', JNum 1)]"
    by (simp add: reject_buffered_def reject_cfg_def)
  show ?thesis
    by (intro conjI, rule c1, rule c2, rule c3, rule c4)
qed

text \<open>
  Claim C9 as stated fails where hydration fails before \<open>applyState\<close> is reached and an
  event was buffered: \<open>applyState\<close> never assigns, and the replay step assigns the initial
  state to the container, which does not hold \<open>undefined\<close> any more.
\<close>

theorem replay_assigns_counterexample:
  "fst (hydrateEntire discard_cfg (quiet (\<lambda>k. Inr JNull)) discard_buffered)
     = Inl (Exn ''discard failed'')
   \<and> state (hydrate discard_cfg (quiet (\<lambda>k. Inr JNull)) discard_buffered) = JUndefined
   \<and> state (hydrate_then_replay discard_cfg (quiet (\<lambda>k. Inr JNull)) (quiet (\<lambda>k. Inr JNull))
              discard_buffered) = JObj [(''value'', JNum 1)]"
proof -
  have a: "adapter discard_cfg = Some memoryAdapter" "strategy discard_cfg = StrategyEntire"
    "initialState discard_cfg = JObj [(''value'', JNum 1)]"
    "shouldDiscardPersisted (hydrateConfig discard_cfg) = Inl (Exn ''discard failed'')"
    by (simp_all add: discard_cfg_def shouldDiscardPersisted_def)
  have b: "discard_buffered = (projr (createNusmStore discard_cfg))
             \<lparr>pendingAdapterEvents := [AdapterEvent EvClear None]\<rparr>"
    by (simp add: discard_buffered_def adapterListener_def createNusmStore_def discard_cfg_def
        truthy_str_def)
  have s0: "state discard_buffered = JUndefined"
    "pendingAdapterEvents discard_buffered = [AdapterEvent EvClear None]"
    by (simp_all add: b createNusmStore_def discard_cfg_def truthy_str_def)
  have he: "hydrateEntire discard_cfg (quiet (\<lambda>k. Inr JNull)) discard_buffered
              = (Inl (Exn ''discard failed''), discard_buffered)"
    by (simp add: hydrateEntire_def a)
  have h: "hydrate discard_cfg (quiet (\<lambda>k. Inr JNull)) discard_buffered
             = hydrate_catch (Exn ''discard failed'') discard_buffered"
    by (simp add: hydrate_def a he)
  have f: "setStateFault (quiet (\<lambda>k. Inr JNull)) (JObj [(''value'', JNum 1)]) = NoFault"
    by (simp add: quiet_def)
  show ?thesis
    by (simp add: he h hydrate_then_replay_def replay_def hydrate_catch_def s0
        handle_clear [OF a(1)] a(2,3) applyExternalState_cases f)
qed

text \<open>
  Claim C10 (amended). When the Readiness Signal settles with failure the readiness flag
  is false and stays false, hydration has left the buffer as it was, and every adapter
  event that arrives after the replay step is appended to the buffer and changes nothing
  else. The replay step itself runs after hydration whatever its outcome: it hands the
  events buffered until then to the event handler, in order.
\<close>

theorem rejected_readiness:
  assumes "ready s = Unsettled" and "\<not> isReady s" and "ready (hydrate cfg w s) = Rejected e"
  shows "\<not> isReady (hydrate cfg w s)
       \<and> pendingAdapterEvents (hydrate cfg w s) = pendingAdapterEvents s
       \<and> replay cfg w' (hydrate cfg w s) =
           (if pendingAdapterEvents s = [] then (None, hydrate cfg w s)
            else replay_loop cfg w' (pendingAdapterEvents s)
                   ((hydrate cfg w s)\<lparr>pendingAdapterEvents := []\<rparr>))
       \<and> \<not> isReady (hydrate_then_replay cfg w w' s)
       \<and> (\<forall>evs. deliver cfg evs (hydrate_then_replay cfg w w' s) =
             (hydrate_then_replay cfg w w' s)
               \<lparr>pendingAdapterEvents :=
                  pendingAdapterEvents (hydrate_then_replay cfg w w' s) @ map snd evs\<rparr>)"
proof -
  note r = hydrate_rejected [OF assms(1,3)]
  have c1: "\<not> isReady (hydrate cfg w s)" using r(1) assms(2) by simp
  have c3: "replay cfg w' (hydrate cfg w s) =
           (if pendingAdapterEvents s = [] then (None, hydrate cfg w s)
            else replay_loop cfg w' (pendingAdapterEvents s)
                   ((hydrate cfg w s)\<lparr>pendingAdapterEvents := []\<rparr>))"
    by (simp add: replay_def r(2))
  have c4: "\<not> isReady (hydrate_then_replay cfg w w' s)"
    using c1 by (simp add: hydrate_then_replay_def replay_isReady)
  have c5: "\<forall>evs. deliver cfg evs (hydrate_then_replay cfg w w' s) =
             (hydrate_then_replay cfg w w' s)
               \<lparr>pendingAdapterEvents :=
                  pendingAdapterEvents (hydrate_then_replay cfg w w' s) @ map snd evs\<rparr>"
    using deliver_not_ready [OF c4] by simp
  show ?thesis
    by (intro conjI, rule c1, rule r(2), rule c3, rule c4, rule c5)
qed

theorem rejected_readiness_witness:
  "\<not> isReady (hydrate_then_replay reject_cfg reject_world reject_world reject_buffered)
   \<and> pendingAdapterEvents (hydrate reject_cfg reject_world reject_buffered)
       = [AdapterEvent EvClear None]"
proof -
  have h1: "ready reject_buffered = Unsettled"
    by (simp add: reject_buffered_def adapterListener_def createNusmStore_def reject_cfg_def
        truthy_str_def)
  have h2: "\<not> isReady reject_buffered"
    by (simp add: reject_buffered_def adapterListener_def createNusmStore_def reject_cfg_def
        truthy_str_def)
  have h3: "ready (hydrate reject_cfg reject_world reject_buffered)
              = Rejected (Exn ''applyState failed'')"
    by (simp add: reject_hydrate)
  have p: "pendingAdapterEvents reject_buffered = [AdapterEvent EvClear None]"
    by (simp add: reject_buffered_def adapterListener_def createNusmStore_def reject_cfg_def
        truthy_str_def)
  show ?thesis
    using rejected_readiness [OF h1 h2 h3, of reject_world] p by simp
qed

text \<open>
  Claim C10 as stated fails for an event buffered before the failure: the assignment of the
  hydrated state throws, the Readiness Signal is rejected, and the replay step then applies
  the buffered \<open>clear\<close> event, which assigns the initial state to the container.
\<close>

theorem replay_after_failure_counterexample:
  "ready (hydrate reject_cfg reject_world reject_buffered) = Rejected (Exn ''applyState failed'')
   \<and> state (hydrate reject_cfg reject_world reject_buffered) = JUndefined
   \<and> state (hydrate_then_replay reject_cfg reject_world reject_world reject_buffered)
       = JObj [(''value'', JNum 1)]"
proof -
  have p: "pendingAdapterEvents reject_buffered = [AdapterEvent EvClear None]"
    and s: "state reject_buffered = JUndefined"
    by (simp_all add: reject_buffered_def adapterListener_def createNusmStore_def reject_cfg_def
        truthy_str_def)
  have a: "adapter reject_cfg = Some memoryAdapter" "strategy reject_cfg = StrategyEntire"
    "initialState reject_cfg = JObj [(''value'', JNum 1)]"
    by (simp_all add: reject_cfg_def)
  have f: "setStateFault reject_world (JObj [(''value'', JNum 1)]) = NoFault"
    by (simp add: reject_world_def)
  show ?thesis
    by (simp add: reject_hydrate hydrate_then_replay_def replay_def p s handle_clear [OF a(1)]
        a applyExternalState_cases f)
qed

end
